theory Spec2Isabelle
  imports Complex_Main
begin

section \<open>Arrays\<close>

text \<open>
  The notebooks work on two-dimensional numpy float arrays: \<open>observed\<close> and
  \<open>catalog\<close> have one row per star and one column per coordinate. An array is
  modelled by its shape and its list of rows; floats are modelled by the reals, so
  rounding is outside the model. The shape is kept explicitly because numpy keeps
  it too: an array of shape \<open>(0, 3)\<close> has no rows and still three columns.
\<close>

datatype error = ValueError

record ndarray =
  nrows :: nat
  ncols :: nat
  rows :: "real list list"

definition well_shaped :: "ndarray \<Rightarrow> bool" where
  "well_shaped A \<longleftrightarrow> length (rows A) = nrows A \<and> (\<forall>r \<in> set (rows A). length r = ncols A)"

definition array :: "real list list \<Rightarrow> ndarray" where
  \<comment> \<open>\<open>np.array([[...], ...])\<close> on a non-empty list of equally long rows\<close>
  "array rs = \<lparr>nrows = length rs, ncols = (case rs of [] \<Rightarrow> 0 | r # _ \<Rightarrow> length r), rows = rs\<rparr>"

definition ent :: "ndarray \<Rightarrow> nat \<Rightarrow> nat \<Rightarrow> real" where
  "ent A i j = rows A ! i ! j"

definition col :: "ndarray \<Rightarrow> nat \<Rightarrow> real list" where
  "col A j = map (\<lambda>r. r ! j) (rows A)"

definition T :: "ndarray \<Rightarrow> ndarray" where
  \<comment> \<open>\<open>A.T\<close>\<close>
  "T A = \<lparr>nrows = ncols A, ncols = nrows A, rows = map (col A) [0..<ncols A]\<rparr>"

definition dot :: "real list \<Rightarrow> real list \<Rightarrow> real" where
  "dot u v = sum_list (map2 (*) u v)"

definition mm :: "ndarray \<Rightarrow> ndarray \<Rightarrow> ndarray" where
  "mm A B = \<lparr>nrows = nrows A, ncols = ncols B,
             rows = map (\<lambda>r. map (\<lambda>j. dot r (col B j)) [0..<ncols B]) (rows A)\<rparr>"

definition matmul :: "ndarray \<Rightarrow> ndarray \<Rightarrow> error + ndarray" where
  \<comment> \<open>\<open>A @ B\<close>: numpy raises ValueError when the inner dimensions differ\<close>
  "matmul A B = (if ncols A = nrows B then Inr (mm A B) else Inl ValueError)"

definition zeros :: "nat \<Rightarrow> nat \<Rightarrow> ndarray" where
  "zeros m n = \<lparr>nrows = m, ncols = n, rows = replicate m (replicate n 0)\<rparr>"

definition madd :: "ndarray \<Rightarrow> ndarray \<Rightarrow> ndarray" where
  "madd A B = \<lparr>nrows = nrows A, ncols = ncols A,
               rows = map2 (map2 (+)) (rows A) (rows B)\<rparr>"

definition smult :: "real \<Rightarrow> ndarray \<Rightarrow> ndarray" where
  "smult c A = \<lparr>nrows = nrows A, ncols = ncols A, rows = map (map ((*) c)) (rows A)\<rparr>"

definition outer :: "real list \<Rightarrow> real list \<Rightarrow> ndarray" where
  \<comment> \<open>the outer product \<open>u \<otimes> v\<close>\<close>
  "outer u v = \<lparr>nrows = length u, ncols = length v, rows = map (\<lambda>a. map (\<lambda>b. a * b) v) u\<rparr>"

section \<open>Unit vectors\<close>

text \<open>
  \<^verbatim>\<open>
  def radec_to_unitvec(ra_deg, dec_deg):
      ra = np.radians(ra_deg)
      dec = np.radians(dec_deg)
      x = np.cos(dec) * np.cos(ra)
      y = np.cos(dec) * np.sin(ra)
      z = np.sin(dec)
      return np.vstack([x, y, z]).T
  \<close>
  The arguments are one-dimensional arrays (columns of the Gaia table). The product
  of two such arrays follows numpy's broadcasting: equal lengths multiply element by
  element, an array of length one is stretched, anything else raises ValueError.
  \<open>np.vstack\<close> raises ValueError unless its rows are equally long.
\<close>

definition radians :: "real \<Rightarrow> real" where
  "radians d = d * pi / 180"

definition multiply :: "real list \<Rightarrow> real list \<Rightarrow> error + real list" where
  "multiply xs ys =
     (if length xs = length ys then Inr (map2 (*) xs ys)
      else if length xs = 1 then Inr (map (\<lambda>y. hd xs * y) ys)
      else if length ys = 1 then Inr (map (\<lambda>x. x * hd ys) xs)
      else Inl ValueError)"

definition vstack :: "real list list \<Rightarrow> error + ndarray" where
  "vstack vs =
     (case vs of
        [] \<Rightarrow> Inl ValueError
      | v # ws \<Rightarrow> if \<forall>w \<in> set ws. length w = length v
                  then Inr \<lparr>nrows = length vs, ncols = length v, rows = vs\<rparr>
                  else Inl ValueError)"

definition radec_to_unitvec :: "real list \<Rightarrow> real list \<Rightarrow> error + ndarray" where
  "radec_to_unitvec ra_deg dec_deg =
     (let ra = map radians ra_deg;
          dec = map radians dec_deg
      in case multiply (map cos dec) (map cos ra) of
           Inl e \<Rightarrow> Inl e
         | Inr x \<Rightarrow>
             (case multiply (map cos dec) (map sin ra) of
                Inl e \<Rightarrow> Inl e
              | Inr y \<Rightarrow>
                  (let z = map sin dec
                   in case vstack [x, y, z] of
                        Inl e \<Rightarrow> Inl e
                      | Inr A \<Rightarrow> Inr (T A))))"

text \<open>
  \<^verbatim>\<open>
  catalog = np.array([[1, 0], [0.5, np.sqrt(3)/2], [-0.5, np.sqrt(3)/2], [-1, 0], [0, -1]])
  catalog = catalog / np.linalg.norm(catalog, axis=1, keepdims=True)
  \<close>
  Each row is divided by its Euclidean norm. (A row of norm zero gives nan in numpy
  and zero here; the catalog has none.)
\<close>

definition vnorm :: "real list \<Rightarrow> real" where
  "vnorm v = sqrt (\<Sum>x\<leftarrow>v. x\<^sup>2)"

definition normalize_rows :: "ndarray \<Rightarrow> ndarray" where
  "normalize_rows A = A\<lparr>rows := map (\<lambda>r. map (\<lambda>x. x / vnorm r) r) (rows A)\<rparr>"

definition catalog2d :: ndarray where
  "catalog2d = normalize_rows (array [[1, 0], [1/2, sqrt 3 / 2], [- 1/2, sqrt 3 / 2], [- 1, 0], [0, - 1]])"

section \<open>Orthogonal matrices and the decomposition\<close>

definition eye :: "nat \<Rightarrow> ndarray" where
  \<comment> \<open>the identity matrix, \<open>np.eye(n)\<close>\<close>
  "eye n = \<lparr>nrows = n, ncols = n,
             rows = map (\<lambda>i. map (\<lambda>j. if i = j then 1 else 0) [0..<n]) [0..<n]\<rparr>"

definition diag :: "real list \<Rightarrow> ndarray" where
  \<comment> \<open>the diagonal matrix of a vector, \<open>np.diag(S)\<close>\<close>
  "diag S = \<lparr>nrows = length S, ncols = length S,
              rows = map (\<lambda>i. map (\<lambda>j. if i = j then S ! i else 0) [0..<length S]) [0..<length S]\<rparr>"

definition orthogonal :: "ndarray \<Rightarrow> bool" where
  "orthogonal Q \<longleftrightarrow> well_shaped Q \<and> nrows Q = ncols Q \<and>
     mm (T Q) Q = eye (ncols Q) \<and> mm Q (T Q) = eye (nrows Q)"

text \<open>
  What \<open>np.linalg.svd\<close> returns for a square matrix \<open>H\<close>: orthogonal \<open>U\<close> and
  \<open>Vt\<close> and the singular values \<open>S\<close>, non-negative and in descending order, with
  \<open>H = U @ np.diag(S) @ Vt\<close>. The decomposition is not unique, so the theorems
  hold for every triple that satisfies this contract.
\<close>

definition is_svd :: "ndarray \<Rightarrow> ndarray \<times> real list \<times> ndarray \<Rightarrow> bool" where
  "is_svd H r \<longleftrightarrow>
     (case r of (U, S, Vt) \<Rightarrow>
        nrows H = ncols H \<and>
        orthogonal U \<and> nrows U = nrows H \<and>
        orthogonal Vt \<and> nrows Vt = nrows H \<and>
        length S = nrows H \<and> (\<forall>s \<in> set S. 0 \<le> s) \<and> sorted (rev S) \<and>
        mm (mm U (diag S)) Vt = H)"

section \<open>Determinants, proper rotations and valid inputs\<close>

text \<open>
  The vocabulary in which the specification states its properties. The
  determinant is the Laplace expansion along the first row.
\<close>

fun det_rows :: "real list list \<Rightarrow> real" where
  "det_rows [] = 1"
| "det_rows (r # rs) =
     (\<Sum>j\<leftarrow>[0..<length r]. (- 1) ^ j * r ! j * det_rows (map (\<lambda>q. take j q @ drop (Suc j) q) rs))"

definition det :: "ndarray \<Rightarrow> real" where
  "det A = det_rows (rows A)"

definition proper_rotation :: "ndarray \<Rightarrow> bool" where
  "proper_rotation Q \<longleftrightarrow> orthogonal Q \<and> det Q = 1"

definition unit_rows :: "ndarray \<Rightarrow> bool" where
  "unit_rows A \<longleftrightarrow> (\<forall>r \<in> set (rows A). vnorm r = 1)"

definition collinear :: "real list \<Rightarrow> real list \<Rightarrow> bool" where
  \<comment> \<open>two vectors of the same length are parallel: every 2 by 2 minor vanishes\<close>
  "collinear u v \<longleftrightarrow>
     (\<forall>i \<in> set [0..<length u]. \<forall>j \<in> set [0..<length u]. u ! i * v ! j = u ! j * v ! i)"

definition all_collinear :: "ndarray \<Rightarrow> bool" where
  "all_collinear A \<longleftrightarrow> (\<forall>u \<in> set (rows A). \<forall>v \<in> set (rows A). collinear u v)"

text \<open>
  A valid correspondence set of dimension \<open>n\<close>: unit vectors on both sides, one
  reference per observation, at least \<open>n\<close> pairs, references not all collinear.
\<close>

definition valid_input :: "nat \<Rightarrow> ndarray \<Rightarrow> ndarray \<Rightarrow> bool" where
  "valid_input n observed catalog \<longleftrightarrow>
     well_shaped observed \<and> well_shaped catalog \<and>
     ncols observed = n \<and> ncols catalog = n \<and>
     nrows observed = nrows catalog \<and> n \<le> nrows catalog \<and>
     unit_rows observed \<and> unit_rows catalog \<and> \<not> all_collinear catalog"

section \<open>The attitude solve\<close>

text \<open>
  \<^verbatim>\<open>
  def solve_attitude(observed, catalog):
      H = observed.T @ catalog
      U, _, Vt = np.linalg.svd(H)
      R_est = Vt.T @ U.T
      return R.from_matrix(R_est)
  \<close>
  The singular-value decomposition is numpy's; it is a parameter \<open>svd\<close> of the
  model, and what numpy promises of it is the predicate \<open>is_svd\<close> above.
  \<open>r_est\<close> is the value of the local variable \<open>R_est\<close>, the first three lines
  of the body.
\<close>

type_synonym svd_result = "ndarray \<times> real list \<times> ndarray"

definition cross_covariance :: "ndarray \<Rightarrow> ndarray \<Rightarrow> error + ndarray" where
  \<comment> \<open>\<open>H = observed.T @ catalog\<close>\<close>
  "cross_covariance observed catalog = matmul (T observed) catalog"

definition r_est :: "(ndarray \<Rightarrow> svd_result) \<Rightarrow> ndarray \<Rightarrow> ndarray \<Rightarrow> error + ndarray" where
  "r_est svd observed catalog =
     (case cross_covariance observed catalog of
        Inl e \<Rightarrow> Inl e
      | Inr H \<Rightarrow> (case svd H of (U, S, Vt) \<Rightarrow> matmul (T Vt) (T U)))"

text \<open>
  The last line hands \<open>R_est\<close> to scipy's \<open>Rotation.from_matrix\<close>. A scipy
  rotation is a rotation of three-dimensional space and is represented here by its
  matrix. \<open>from_matrix\<close> raises ValueError unless its argument is 3 by 3, and on
  a proper rotation matrix it gives the rotation with that matrix. What it does
  with a 3 by 3 matrix that is not a proper rotation depends on the scipy version
  (it raises ValueError for a non-positive determinant, or it returns the rotation
  of a quaternion extracted from the matrix); this is the parameter \<open>improper\<close>.
  In either case what comes back is never a matrix of determinant \<open>-1\<close>, which is
  the predicate \<open>gives_rotations\<close>.
\<close>

definition from_matrix :: "(ndarray \<Rightarrow> error + ndarray) \<Rightarrow> ndarray \<Rightarrow> error + ndarray" where
  "from_matrix improper M =
     (if nrows M \<noteq> 3 \<or> ncols M \<noteq> 3 then Inl ValueError
      else if proper_rotation M then Inr M
      else improper M)"

definition gives_rotations :: "(ndarray \<Rightarrow> error + ndarray) \<Rightarrow> bool" where
  "gives_rotations improper \<longleftrightarrow> (\<forall>M Q. improper M = Inr Q \<longrightarrow> nrows Q = 3 \<and> proper_rotation Q)"

definition solve_attitude ::
  "(ndarray \<Rightarrow> svd_result) \<Rightarrow> (ndarray \<Rightarrow> error + ndarray) \<Rightarrow> ndarray \<Rightarrow> ndarray \<Rightarrow> error + ndarray" where
  "solve_attitude svd improper observed catalog =
     (case r_est svd observed catalog of
        Inl e \<Rightarrow> Inl e
      | Inr R \<Rightarrow> from_matrix improper R)"

text \<open>
  Routines with a fixed answer, used to run the solve on concrete inputs: a
  decomposition routine that returns a given decomposition, and the two ways in
  which scipy treats a matrix that is not a proper rotation.
\<close>

definition svd_returning :: "svd_result \<Rightarrow> ndarray \<Rightarrow> svd_result" where
  "svd_returning r H = r"

definition improper_raises :: "ndarray \<Rightarrow> error + ndarray" where
  "improper_raises M = Inl ValueError"

definition improper_returning :: "ndarray \<Rightarrow> ndarray \<Rightarrow> error + ndarray" where
  "improper_returning Q M = Inr Q"

text \<open>
  The sign correction of the specification (section 4.3): with
  \<open>d = sign(det(U Vt))\<close>, the matrix \<open>diag(1, \<dots>, 1, d)\<close> is put between \<open>U\<close> and
  \<open>Vt\<close>.
\<close>

definition sign_corrected :: "ndarray \<Rightarrow> ndarray \<Rightarrow> ndarray" where
  "sign_corrected U Vt = mm (mm U (diag (replicate (nrows U - 1) 1 @ [sgn (det (mm U Vt))]))) Vt"

text \<open>
  The cross-covariance of the specification: the sum of the weighted outer products
  \<open>w\<^sub>i \<cdot> observed\<^sub>i \<otimes> reference\<^sub>i\<close> over the correspondences, starting from
  the zero matrix of the problem's dimension.
\<close>

definition weighted_outer_sum :: "nat \<Rightarrow> (real \<times> real list \<times> real list) list \<Rightarrow> ndarray" where
  "weighted_outer_sum n cs = foldr (\<lambda>(w, ob, rf) acc. madd (smult w (outer ob rf)) acc) cs (zeros n n)"

definition uniform :: "ndarray \<Rightarrow> ndarray \<Rightarrow> (real \<times> real list \<times> real list) list" where
  \<comment> \<open>the correspondences of two arrays, each with the default weight 1\<close>
  "uniform observed catalog = map2 (\<lambda>ob rf. (1, ob, rf)) (rows observed) (rows catalog)"

section \<open>Rotated observations\<close>

text \<open>
  The notebooks produce the observations by rotating the catalog:
  \<^verbatim>\<open>
  true_rot = R.from_euler('xyz', [10, 5, 25], degrees=True)
  observed_vecs = true_rot.apply(catalog_vecs)
  \<close>
  \<open>rotate_rows R\<^sub>0 A\<close> is the array whose rows are \<open>R\<^sub>0 v\<close> for the rows \<open>v\<close> of
  \<open>A\<close>. scipy's \<open>apply\<close> computes it for a rotation, given by its 3 by 3 matrix,
  and an array of three columns, and raises ValueError for any other number of
  columns. The catalog spans the space when only the zero vector is orthogonal to
  every reference.
\<close>

definition mv :: "ndarray \<Rightarrow> real list \<Rightarrow> real list" where
  \<comment> \<open>the matrix-vector product \<open>A v\<close>\<close>
  "mv A v = map (\<lambda>r. dot r v) (rows A)"

definition rotate_rows :: "ndarray \<Rightarrow> ndarray \<Rightarrow> ndarray" where
  "rotate_rows R\<^sub>0 A = \<lparr>nrows = nrows A, ncols = nrows R\<^sub>0, rows = map (mv R\<^sub>0) (rows A)\<rparr>"

definition rot_apply :: "ndarray \<Rightarrow> ndarray \<Rightarrow> error + ndarray" where
  \<comment> \<open>\<open>rotation.apply(vectors)\<close>, the rotation given by its matrix\<close>
  "rot_apply R\<^sub>0 A = (if ncols A = 3 then Inr (rotate_rows R\<^sub>0 A) else Inl ValueError)"

definition spans :: "nat \<Rightarrow> ndarray \<Rightarrow> bool" where
  "spans n catalog \<longleftrightarrow>
     (\<forall>w. length w = n \<and> (\<forall>c \<in> set (rows catalog). dot c w = 0) \<longrightarrow> w = replicate n 0)"

section \<open>The planar notebook\<close>


definition rot2 :: "real \<Rightarrow> ndarray" where
  "rot2 \<theta> = \<lparr>nrows = 2, ncols = 2, rows = [[cos \<theta>, - sin \<theta>], [sin \<theta>, cos \<theta>]]\<rparr>"



section \<open>Angles and residuals\<close>

text \<open>
  The angle between two rotations of three-dimensional space is the angle of the
  rotation that takes one to the other.
\<close>

definition trace :: "ndarray \<Rightarrow> real" where
  "trace A = (\<Sum>i\<leftarrow>[0..<nrows A]. ent A i i)"

definition rotation_angle :: "ndarray \<Rightarrow> ndarray \<Rightarrow> real" where
  "rotation_angle A B = arccos ((trace (mm (T A) B) - 1) / 2)"



section \<open>Entries\<close>

lemma ndarray_eqI:
  assumes "well_shaped A" "well_shaped B" "nrows A = nrows B" "ncols A = ncols B"
    and "\<And>i j. i < nrows A \<Longrightarrow> j < ncols A \<Longrightarrow> ent A i j = ent B i j"
  shows "A = B"
proof -
  have "rows A = rows B"
  proof (rule nth_equalityI)
    show "length (rows A) = length (rows B)"
      using assms(1-3) by (simp add: well_shaped_def)
  next
    fix i assume i: "i < length (rows A)"
    then have iA: "i < nrows A" and iB: "i < length (rows B)"
      using assms(1-3) by (simp_all add: well_shaped_def)
    have lA: "length (rows A ! i) = ncols A"
      using assms(1) i by (simp add: well_shaped_def)
    have lB: "length (rows B ! i) = ncols A"
      using assms(2,4) iB by (simp add: well_shaped_def)
    show "rows A ! i = rows B ! i"
    proof (rule nth_equalityI)
      show "length (rows A ! i) = length (rows B ! i)" using lA lB by simp
    next
      fix j assume "j < length (rows A ! i)"
      then have "j < ncols A" using lA by simp
      from assms(5)[OF iA this] show "rows A ! i ! j = rows B ! i ! j"
        by (simp add: ent_def)
    qed
  qed
  with assms(3,4) show ?thesis by simp
qed

lemma dot_sum: "length u = length v \<Longrightarrow> dot u v = (\<Sum>k<length u. u ! k * v ! k)"
proof -
  assume l: "length u = length v"
  have "dot u v = sum_list (map (\<lambda>k. u ! k * v ! k) [0..<length u])"
    unfolding dot_def using l
    by (intro arg_cong[where f = sum_list] nth_equalityI) simp_all
  also have "\<dots> = (\<Sum>k<length u. u ! k * v ! k)"
    by (simp add: interv_sum_list_conv_sum_set_nat atLeast0LessThan)
  finally show ?thesis .
qed

lemma well_shaped_T [simp]: "well_shaped A \<Longrightarrow> well_shaped (T A)"
  by (auto simp: well_shaped_def T_def col_def)

lemma nrows_T [simp]: "nrows (T A) = ncols A"
  by (simp add: T_def)

lemma ncols_T [simp]: "ncols (T A) = nrows A"
  by (simp add: T_def)

lemma ent_T: "well_shaped A \<Longrightarrow> i < ncols A \<Longrightarrow> j < nrows A \<Longrightarrow> ent (T A) i j = ent A j i"
  by (simp add: ent_def T_def col_def well_shaped_def)

lemma well_shaped_mm [simp]: "well_shaped A \<Longrightarrow> well_shaped (mm A B)"
  by (auto simp: well_shaped_def mm_def)

lemma nrows_mm [simp]: "nrows (mm A B) = nrows A"
  by (simp add: mm_def)

lemma ncols_mm [simp]: "ncols (mm A B) = ncols B"
  by (simp add: mm_def)

lemma col_nth: "well_shaped A \<Longrightarrow> i < nrows A \<Longrightarrow> col A j ! i = ent A i j"
  by (simp add: col_def ent_def well_shaped_def)

lemma length_col: "well_shaped A \<Longrightarrow> length (col A j) = nrows A"
  by (simp add: col_def well_shaped_def)

lemma ent_mm:
  assumes "well_shaped A" "well_shaped B" "ncols A = nrows B" "i < nrows A" "j < ncols B"
  shows "ent (mm A B) i j = (\<Sum>k<ncols A. ent A i k * ent B k j)"
proof -
  have li: "i < length (rows A)" and lr: "length (rows A ! i) = ncols A"
    using assms(1,4) by (simp_all add: well_shaped_def)
  have "ent (mm A B) i j = dot (rows A ! i) (col B j)"
    using li assms(5) by (simp add: ent_def mm_def)
  also have "\<dots> = (\<Sum>k<ncols A. rows A ! i ! k * col B j ! k)"
    using dot_sum[of "rows A ! i" "col B j"] lr assms(2,3) by (simp add: length_col)
  also have "\<dots> = (\<Sum>k<ncols A. ent A i k * ent B k j)"
    using assms(2,3) by (intro sum.cong) (simp_all add: col_nth ent_def)
  finally show ?thesis .
qed

lemma well_shaped_zeros [simp]: "well_shaped (zeros m n)"
  by (simp add: well_shaped_def zeros_def)

lemma ent_zeros: "i < m \<Longrightarrow> j < n \<Longrightarrow> ent (zeros m n) i j = 0"
  by (simp add: ent_def zeros_def)

lemma well_shaped_outer [simp]: "well_shaped (outer u v)"
  by (auto simp: well_shaped_def outer_def)

lemma ent_outer: "i < length u \<Longrightarrow> j < length v \<Longrightarrow> ent (outer u v) i j = u ! i * v ! j"
  by (simp add: ent_def outer_def)

lemma well_shaped_smult [simp]: "well_shaped A \<Longrightarrow> well_shaped (smult c A)"
  by (auto simp: well_shaped_def smult_def)

lemma ent_smult: "well_shaped A \<Longrightarrow> i < nrows A \<Longrightarrow> j < ncols A \<Longrightarrow> ent (smult c A) i j = c * ent A i j"
  by (simp add: ent_def smult_def well_shaped_def)

lemma well_shaped_madd [simp]:
  "well_shaped A \<Longrightarrow> well_shaped B \<Longrightarrow> nrows A = nrows B \<Longrightarrow> ncols A = ncols B \<Longrightarrow> well_shaped (madd A B)"
  by (auto simp: well_shaped_def madd_def set_zip)

lemma ent_madd:
  "well_shaped A \<Longrightarrow> well_shaped B \<Longrightarrow> nrows A = nrows B \<Longrightarrow> ncols A = ncols B \<Longrightarrow>
   i < nrows A \<Longrightarrow> j < ncols A \<Longrightarrow> ent (madd A B) i j = ent A i j + ent B i j"
  by (simp add: ent_def madd_def well_shaped_def)

lemma outer_sum_entries:
  assumes "length os = length cs" "\<forall>ob \<in> set os. length ob = n" "\<forall>rf \<in> set cs. length rf = n"
  defines "W \<equiv> foldr (\<lambda>(w, ob, rf) acc. madd (smult w (outer ob rf)) acc)
                      (map2 (\<lambda>ob rf. (1, ob, rf)) os cs) (zeros n n)"
  shows "well_shaped W \<and> nrows W = n \<and> ncols W = n \<and>
         (\<forall>j<n. \<forall>k<n. ent W j k = (\<Sum>i<length os. os ! i ! j * cs ! i ! k))"
  using assms(1-3) unfolding W_def
proof (induction os cs rule: list_induct2)
  case Nil
  then show ?case by (simp add: ent_zeros) (simp add: zeros_def)
next
  case (Cons ob os rf cs)
  define W' where "W' = foldr (\<lambda>(w, ob, rf) acc. madd (smult w (outer ob rf)) acc)
                      (map2 (\<lambda>ob rf. (1, ob, rf)) os cs) (zeros n n)"
  define P where "P = smult 1 (outer ob rf)"
  have IH: "well_shaped W'" "nrows W' = n" "ncols W' = n"
    "\<And>j k. j < n \<Longrightarrow> k < n \<Longrightarrow> ent W' j k = (\<Sum>i<length os. os ! i ! j * cs ! i ! k)"
    using Cons unfolding W'_def by simp_all
  have lo: "length ob = n" "length rf = n" using Cons.prems by simp_all
  have P: "well_shaped P" "nrows P = n" "ncols P = n"
    using lo by (simp_all add: P_def) (simp_all add: smult_def outer_def)
  have entP: "ent P j k = ob ! j * rf ! k" if "j < n" "k < n" for j k
    using that lo by (simp add: P_def ent_def smult_def outer_def)
  have step: "foldr (\<lambda>(w, ob, rf) acc. madd (smult w (outer ob rf)) acc)
                      (map2 (\<lambda>ob rf. (1, ob, rf)) (ob # os) (rf # cs)) (zeros n n) = madd P W'"
    by (simp add: P_def W'_def)
  have "well_shaped (madd P W')" using P IH by simp
  moreover have "nrows (madd P W') = n" "ncols (madd P W') = n"
    using P by (simp_all add: madd_def)
  moreover have "ent (madd P W') j k = (\<Sum>i<length (ob # os). (ob # os) ! i ! j * (rf # cs) ! i ! k)"
    if "j < n" "k < n" for j k
    using that P entP IH by (simp add: ent_madd sum.lessThan_Suc_shift del: sum.lessThan_Suc)
  ultimately show ?case unfolding step by blast
qed

section \<open>The cross-covariance is the sum of the outer products\<close>

text \<open>
  Claim C5. For every finite sequence of correspondence pairs (two arrays with the
  same number of rows, each row of the dimension \<open>n\<close>; the sequence may be
  empty), the matrix \<open>H = observed.T @ catalog\<close> computed by \<open>solve_attitude\<close>
  is the sum over the pairs of the outer products \<open>observed\<^sub>i \<otimes> reference\<^sub>i\<close>,
  that is the weighted sum of the specification with every weight equal to 1.
\<close>

theorem cross_covariance_outer_sum:
  assumes "well_shaped observed" "well_shaped catalog"
    and "nrows observed = nrows catalog" "ncols observed = n" "ncols catalog = n"
  shows "cross_covariance observed catalog = Inr (weighted_outer_sum n (uniform observed catalog))"
proof -
  let ?W = "weighted_outer_sum n (uniform observed catalog)"
  have W: "well_shaped ?W \<and> nrows ?W = n \<and> ncols ?W = n \<and>
         (\<forall>j<n. \<forall>k<n. ent ?W j k = (\<Sum>i<length (rows observed). rows observed ! i ! j * rows catalog ! i ! k))"
    unfolding weighted_outer_sum_def uniform_def
    using assms by (intro outer_sum_entries) (simp_all add: well_shaped_def)
  have "mm (T observed) catalog = ?W"
  proof (rule ndarray_eqI)
    fix j k assume "j < nrows (mm (T observed) catalog)" "k < ncols (mm (T observed) catalog)"
    then have jk: "j < n" "k < n" using assms by simp_all
    have "ent (mm (T observed) catalog) j k = (\<Sum>i<nrows observed. ent (T observed) j i * ent catalog i k)"
      using assms jk by (simp add: ent_mm)
    also have "\<dots> = (\<Sum>i<nrows observed. ent observed i j * ent catalog i k)"
      using assms jk by (intro sum.cong) (simp_all add: ent_T)
    also have "\<dots> = ent ?W j k"
      using W jk assms(1) by (simp add: ent_def well_shaped_def)
    finally show "ent (mm (T observed) catalog) j k = ent ?W j k" .
  qed (use W assms in simp_all)
  then show ?thesis using assms by (simp add: cross_covariance_def matmul_def)
qed

theorem cross_covariance_outer_sum_witness:
  "cross_covariance (array [[1, 0], [0, 1], [3, 4]]) (array [[0, 1], [1, 0], [1, 2]]) =
     Inr (weighted_outer_sum 2 (uniform (array [[1, 0], [0, 1], [3, 4]]) (array [[0, 1], [1, 0], [1, 2]])))
   \<and> weighted_outer_sum 2 (uniform (array [[1, 0], [0, 1], [3, 4]]) (array [[0, 1], [1, 0], [1, 2]]))
       = array [[3, 7], [5, 8]]"
  using cross_covariance_outer_sum[of "array [[1, 0], [0, 1], [3, 4]]" "array [[0, 1], [1, 0], [1, 2]]" 2]
  by (simp add: well_shaped_def array_def weighted_outer_sum_def uniform_def madd_def smult_def outer_def zeros_def
      numeral_2_eq_2)

section \<open>Unit vectors have norm one\<close>

lemma vnorm_radec: "vnorm [cos d * cos a, cos d * sin a, sin d] = 1"
proof -
  have "(cos d * cos a)\<^sup>2 + ((cos d * sin a)\<^sup>2 + (sin d)\<^sup>2)
        = (cos d)\<^sup>2 * ((cos a)\<^sup>2 + (sin a)\<^sup>2) + (sin d)\<^sup>2"
    by (simp only: power_mult_distrib distrib_left add.assoc)
  also have "\<dots> = 1" by simp
  finally show ?thesis by (simp add: vnorm_def)
qed

lemma multiply_nth:
  assumes "multiply (map cos ds) (map f as) = Inr x" "length x = length ds" "i < length ds"
  shows "x ! i = cos (ds ! i) * f (if length ds = length as then as ! i else hd as)"
proof (cases "length ds = length as")
  case True
  with assms show ?thesis by (auto simp: multiply_def)
next
  case False
  show ?thesis
  proof (cases "length ds = 1")
    case True
    with False assms show ?thesis by (auto simp: multiply_def)
  next
    case ds: False
    with False assms(1) have as: "length as = 1" and x: "x = map (\<lambda>c. c * hd (map f as)) (map cos ds)"
      by (auto simp: multiply_def split: if_splits)
    from as obtain a where "as = [a]" by (cases as) auto
    with x assms(3) show ?thesis by auto
  qed
qed

lemma radec_success:
  assumes "radec_to_unitvec ra_deg dec_deg = Inr A"
  obtains x y where
    "multiply (map cos (map radians dec_deg)) (map cos (map radians ra_deg)) = Inr x"
    "multiply (map cos (map radians dec_deg)) (map sin (map radians ra_deg)) = Inr y"
    "length x = length dec_deg" "length y = length dec_deg"
    "A = T \<lparr>nrows = 3, ncols = length dec_deg, rows = [x, y, map sin (map radians dec_deg)]\<rparr>"
proof -
  from assms obtain x where
    x: "multiply (map cos (map radians dec_deg)) (map cos (map radians ra_deg)) = Inr x"
    by (cases "multiply (map cos (map radians dec_deg)) (map cos (map radians ra_deg))")
       (simp_all add: radec_to_unitvec_def Let_def)
  from assms x obtain y where
    y: "multiply (map cos (map radians dec_deg)) (map sin (map radians ra_deg)) = Inr y"
    by (cases "multiply (map cos (map radians dec_deg)) (map sin (map radians ra_deg))")
       (simp_all add: radec_to_unitvec_def Let_def)
  from assms x y obtain B where
    B: "vstack [x, y, map sin (map radians dec_deg)] = Inr B" and A: "A = T B"
    by (cases "vstack [x, y, map sin (map radians dec_deg)]")
       (simp_all add: radec_to_unitvec_def Let_def)
  from B have "length y = length x" "length dec_deg = length x"
    and "B = \<lparr>nrows = 3, ncols = length x, rows = [x, y, map sin (map radians dec_deg)]\<rparr>"
    by (auto simp: vstack_def split: if_splits)
  with x y A that show thesis by simp
qed

lemma radec_rows:
  assumes "radec_to_unitvec ra_deg dec_deg = Inr A" "r \<in> set (rows A)"
  shows "\<exists>d a. r = [cos d * cos a, cos d * sin a, sin d]"
proof -
  let ?ds = "map radians dec_deg" and ?as = "map radians ra_deg"
  from assms(1) obtain x y where
    x: "multiply (map cos ?ds) (map cos ?as) = Inr x" and
    y: "multiply (map cos ?ds) (map sin ?as) = Inr y" and
    l: "length x = length dec_deg" "length y = length dec_deg" and
    A: "A = T \<lparr>nrows = 3, ncols = length dec_deg, rows = [x, y, map sin ?ds]\<rparr>"
    by (rule radec_success)
  from assms(2) A obtain i where i: "i < length dec_deg" and r: "r = [x ! i, y ! i, sin (?ds ! i)]"
    by (auto simp: T_def col_def)
  from multiply_nth[OF x] multiply_nth[OF y] l i r show ?thesis by auto
qed

lemma catalog2d_rows:
  "rows catalog2d = [[1, 0], [1/2, sqrt 3 / 2], [- 1/2, sqrt 3 / 2], [- 1, 0], [0, - 1]]"
  by (simp add: catalog2d_def normalize_rows_def array_def vnorm_def power_divide
      flip: add_divide_distrib)


text \<open>
  Claim C10. For all right ascensions and declinations, every row of the array that
  \<open>radec_to_unitvec\<close> returns has Euclidean norm exactly 1 (and it does return
  one row per star when the two arguments are equally long); and every row of the
  planar catalog has norm 1 after the normalization step.
\<close>

theorem unit_vectors:
  "(radec_to_unitvec ra_deg dec_deg = Inr A \<longrightarrow> (\<forall>r \<in> set (rows A). vnorm r = 1))
   \<and> (length ra_deg = length dec_deg \<longrightarrow>
        (\<exists>B. radec_to_unitvec ra_deg dec_deg = Inr B \<and> nrows B = length ra_deg \<and> ncols B = 3))
   \<and> (\<forall>r \<in> set (rows catalog2d). vnorm r = 1)"
proof (intro conjI impI ballI)
  fix r assume "radec_to_unitvec ra_deg dec_deg = Inr A" "r \<in> set (rows A)"
  from radec_rows[OF this] show "vnorm r = 1" by (auto simp: vnorm_radec)
next
  assume "length ra_deg = length dec_deg"
  then show "\<exists>B. radec_to_unitvec ra_deg dec_deg = Inr B \<and> nrows B = length ra_deg \<and> ncols B = 3"
    by (simp add: radec_to_unitvec_def Let_def multiply_def vstack_def)
next
  fix r assume "r \<in> set (rows catalog2d)"
  then show "vnorm r = 1"
    by (auto simp: catalog2d_rows vnorm_def power_divide simp flip: add_divide_distrib) 
qed

theorem unit_vectors_witness:
  "radec_to_unitvec [0, 90] [0, 0] = Inr (array [[1, 0, 0], [0, 1, 0]])
   \<and> vnorm [1, 0, 0] = 1 \<and> vnorm [0, 1, 0] = 1
   \<and> vnorm [1/2, sqrt 3 / 2] = 1"
proof -
  have e: "radec_to_unitvec [0, 90] [0, 0] = Inr (array [[1, 0, 0], [0, 1, 0]])"
    by (simp add: radec_to_unitvec_def Let_def multiply_def vstack_def T_def col_def radians_def
        array_def numeral_2_eq_2)
  have m: "[1/2, sqrt 3 / 2] \<in> set (rows catalog2d)"
    by (simp add: catalog2d_rows)
  from unit_vectors[of "[0, 90]" "[0, 0]" "array [[1, 0, 0], [0, 1, 0]]"] e m
  show ?thesis by (simp add: array_def)
qed

section \<open>Matrix algebra\<close>

lemma mm_assoc:
  assumes "well_shaped A" "well_shaped B" "well_shaped C"
    and "ncols A = nrows B" "ncols B = nrows C"
  shows "mm (mm A B) C = mm A (mm B C)"
proof (rule ndarray_eqI)
  fix i j assume "i < nrows (mm (mm A B) C)" "j < ncols (mm (mm A B) C)"
  then have ij: "i < nrows A" "j < ncols C" by simp_all
  have "ent (mm (mm A B) C) i j = (\<Sum>k<ncols B. ent (mm A B) i k * ent C k j)"
    using assms ij by (simp add: ent_mm)
  also have "\<dots> = (\<Sum>k<ncols B. (\<Sum>l<ncols A. ent A i l * ent B l k) * ent C k j)"
    using assms ij by (intro sum.cong) (simp_all add: ent_mm)
  also have "\<dots> = (\<Sum>k<ncols B. \<Sum>l<ncols A. ent A i l * (ent B l k * ent C k j))"
    by (simp add: sum_distrib_right mult.assoc)
  also have "\<dots> = (\<Sum>l<ncols A. \<Sum>k<ncols B. ent A i l * (ent B l k * ent C k j))"
    by (rule sum.swap)
  also have "\<dots> = (\<Sum>l<ncols A. ent A i l * (\<Sum>k<ncols B. ent B l k * ent C k j))"
    by (simp add: sum_distrib_left)
  also have "\<dots> = (\<Sum>l<ncols A. ent A i l * ent (mm B C) l j)"
    using assms ij by (intro sum.cong) (simp_all add: ent_mm)
  also have "\<dots> = ent (mm A (mm B C)) i j"
    using assms ij by (simp add: ent_mm)
  finally show "ent (mm (mm A B) C) i j = ent (mm A (mm B C)) i j" .
qed (use assms in simp_all)

lemma T_mm:
  assumes "well_shaped A" "well_shaped B" "ncols A = nrows B"
  shows "T (mm A B) = mm (T B) (T A)"
proof (rule ndarray_eqI)
  fix i j assume "i < nrows (T (mm A B))" "j < ncols (T (mm A B))"
  then have ij: "i < ncols B" "j < nrows A" by simp_all
  have "ent (T (mm A B)) i j = (\<Sum>k<ncols A. ent A j k * ent B k i)"
    using assms ij by (simp add: ent_T ent_mm)
  also have "\<dots> = (\<Sum>k<ncols A. ent (T B) i k * ent (T A) k j)"
    using assms ij by (intro sum.cong) (simp_all add: ent_T)
  also have "\<dots> = ent (mm (T B) (T A)) i j"
    using assms ij by (simp add: ent_mm)
  finally show "ent (T (mm A B)) i j = ent (mm (T B) (T A)) i j" .
qed (use assms in simp_all)

lemma T_T [simp]: "well_shaped A \<Longrightarrow> T (T A) = A"
  by (rule ndarray_eqI) (simp_all add: ent_T)

lemma well_shaped_eye [simp]: "well_shaped (eye n)"
  by (auto simp: well_shaped_def eye_def)

lemma nrows_eye [simp]: "nrows (eye n) = n"
  by (simp add: eye_def)

lemma ncols_eye [simp]: "ncols (eye n) = n"
  by (simp add: eye_def)

lemma ent_eye: "i < n \<Longrightarrow> j < n \<Longrightarrow> ent (eye n) i j = (if i = j then 1 else 0)"
  by (simp add: ent_def eye_def)

lemma mm_eye_right [simp]:
  assumes "well_shaped A" "ncols A = n"
  shows "mm A (eye n) = A"
proof (rule ndarray_eqI)
  fix i j assume "i < nrows (mm A (eye n))" "j < ncols (mm A (eye n))"
  then have ij: "i < nrows A" "j < n" by simp_all
  have "ent (mm A (eye n)) i j = (\<Sum>k<n. ent A i k * (if k = j then 1 else 0))"
    using assms ij by (simp add: ent_mm ent_eye)
  also have "\<dots> = ent A i j"
  proof -
    have "(\<Sum>k<n. ent A i k * (if k = j then 1 else 0)) = (\<Sum>k<n. if k = j then ent A i k else 0)"
      by (intro sum.cong) simp_all
    then show ?thesis using ij by simp
  qed
  finally show "ent (mm A (eye n)) i j = ent A i j" .
qed (use assms in simp_all)

lemma mm_eye_left [simp]:
  assumes "well_shaped A" "nrows A = n"
  shows "mm (eye n) A = A"
proof (rule ndarray_eqI)
  fix i j assume "i < nrows (mm (eye n) A)" "j < ncols (mm (eye n) A)"
  then have ij: "i < n" "j < ncols A" by simp_all
  have "ent (mm (eye n) A) i j = (\<Sum>k<n. (if i = k then 1 else 0) * ent A k j)"
    using assms ij by (simp add: ent_mm ent_eye)
  also have "\<dots> = ent A i j"
  proof -
    have "(\<Sum>k<n. (if i = k then 1 else 0) * ent A k j) = (\<Sum>k<n. if i = k then ent A k j else 0)"
      by (intro sum.cong) simp_all
    then show ?thesis using ij by simp
  qed
  finally show "ent (mm (eye n) A) i j = ent A i j" .
qed (use assms in simp_all)

lemma orthogonal_T: "orthogonal Q \<Longrightarrow> orthogonal (T Q)"
  by (simp add: orthogonal_def)

lemma orthogonal_mm:
  assumes "orthogonal P" "orthogonal Q" "nrows P = nrows Q"
  shows "orthogonal (mm P Q)"
proof -
  let ?n = "nrows P"
  have P: "well_shaped P" "ncols P = ?n"
    using assms(1) by (simp_all add: orthogonal_def)
  have Po: "mm (T P) P = eye ?n" "mm P (T P) = eye ?n"
    using assms(1) by (simp_all add: orthogonal_def)
  have Q: "well_shaped Q" "nrows Q = ?n" "ncols Q = ?n"
    using assms(2,3) by (simp_all add: orthogonal_def)
  have Qo: "mm (T Q) Q = eye ?n" "mm Q (T Q) = eye ?n"
    using assms(2,3) by (simp_all add: orthogonal_def)
  have "mm (T (mm P Q)) (mm P Q) = mm (mm (T Q) (T P)) (mm P Q)"
    using P Q by (simp add: T_mm)
  also have "\<dots> = mm (T Q) (mm (T P) (mm P Q))"
    using P Q by (simp add: mm_assoc)
  also have "mm (T P) (mm P Q) = mm (mm (T P) P) Q"
    using P Q by (simp add: mm_assoc)
  also have "mm (T Q) (mm (mm (T P) P) Q) = eye ?n"
    using Po Qo Q by simp
  finally have 1: "mm (T (mm P Q)) (mm P Q) = eye ?n" .
  have "mm (mm P Q) (T (mm P Q)) = mm (mm P Q) (mm (T Q) (T P))"
    using P Q by (simp add: T_mm)
  also have "\<dots> = mm P (mm Q (mm (T Q) (T P)))"
    using P Q by (simp add: mm_assoc)
  also have "mm Q (mm (T Q) (T P)) = mm (mm Q (T Q)) (T P)"
    using P Q by (simp add: mm_assoc)
  also have "mm P (mm (mm Q (T Q)) (T P)) = eye ?n"
    using Po Qo P by simp
  finally have 2: "mm (mm P Q) (T (mm P Q)) = eye ?n" .
  show ?thesis using 1 2 P Q by (simp add: orthogonal_def)
qed

lemma upt_0_2: "[0..<2] = [0, 1]"
  by (simp add: numeral_2_eq_2)

lemma upt_0_3: "[0..<3] = [0, 1, 2]"
  by (simp add: numeral_3_eq_3)

lemmas array_eval = upt_0_2 upt_0_3 well_shaped_def array_def T_def col_def mm_def matmul_def dot_def eye_def diag_def
  orthogonal_def is_svd_def cross_covariance_def r_est_def svd_returning_def

section \<open>Determinants in two and three dimensions\<close>

lemma shape_2:
  assumes "well_shaped A" "nrows A = 2" "ncols A = 2"
  obtains a b c d where "A = \<lparr>nrows = 2, ncols = 2, rows = [[a, b], [c, d]]\<rparr>"
proof -
  from assms have l: "length (rows A) = 2" and r: "\<forall>r \<in> set (rows A). length r = 2"
    by (simp_all add: well_shaped_def)
  from l obtain r1 r2 where rs: "rows A = [r1, r2]"
    by (auto simp: numeral_2_eq_2 length_Suc_conv)
  from r rs obtain a b c d where "r1 = [a, b]" "r2 = [c, d]"
    by (auto simp: numeral_2_eq_2 length_Suc_conv)
  with rs assms(2,3) have "A = \<lparr>nrows = 2, ncols = 2, rows = [[a, b], [c, d]]\<rparr>" by simp
  then show thesis by (rule that)
qed

lemma shape_3:
  assumes "well_shaped A" "nrows A = 3" "ncols A = 3"
  obtains a b c d e f g h k where
    "A = \<lparr>nrows = 3, ncols = 3, rows = [[a, b, c], [d, e, f], [g, h, k]]\<rparr>"
proof -
  from assms have l: "length (rows A) = 3" and r: "\<forall>r \<in> set (rows A). length r = 3"
    by (simp_all add: well_shaped_def)
  from l obtain r1 r2 r3 where rs: "rows A = [r1, r2, r3]"
    by (auto simp: numeral_3_eq_3 length_Suc_conv)
  from r rs obtain a b c d e f g h k where "r1 = [a, b, c]" "r2 = [d, e, f]" "r3 = [g, h, k]"
    by (auto simp: numeral_3_eq_3 length_Suc_conv)
  with rs assms(2,3) have "A = \<lparr>nrows = 3, ncols = 3, rows = [[a, b, c], [d, e, f], [g, h, k]]\<rparr>"
    by simp
  then show thesis by (rule that)
qed

lemma det_2: "det \<lparr>nrows = m, ncols = n, rows = [[a, b], [c, d]]\<rparr> = a * d - b * c"
  by (simp add: det_def upt_0_2)

lemma det_3:
  "det \<lparr>nrows = m, ncols = n, rows = [[a, b, c], [d, e, f], [g, h, k]]\<rparr>
     = a * (e * k - f * h) - b * (d * k - f * g) + c * (d * h - e * g)"
  by (simp add: det_def upt_0_2 upt_0_3)

lemma mm_2:
  "mm \<lparr>nrows = 2, ncols = 2, rows = [[a, b], [c, d]]\<rparr>
      \<lparr>nrows = 2, ncols = 2, rows = [[a', b'], [c', d']]\<rparr>
   = \<lparr>nrows = 2, ncols = 2,
       rows = [[a * a' + b * c', a * b' + b * d'], [c * a' + d * c', c * b' + d * d']]\<rparr>"
  by (simp add: mm_def col_def dot_def upt_0_2)

lemma mm_3:
  "mm \<lparr>nrows = 3, ncols = 3, rows = [[a, b, c], [d, e, f], [g, h, k]]\<rparr>
      \<lparr>nrows = 3, ncols = 3, rows = [[a', b', c'], [d', e', f'], [g', h', k']]\<rparr>
   = \<lparr>nrows = 3, ncols = 3,
       rows = [[a * a' + (b * d' + c * g'), a * b' + (b * e' + c * h'), a * c' + (b * f' + c * k')],
               [d * a' + (e * d' + f * g'), d * b' + (e * e' + f * h'), d * c' + (e * f' + f * k')],
               [g * a' + (h * d' + k * g'), g * b' + (h * e' + k * h'), g * c' + (h * f' + k * k')]]\<rparr>"
  by (simp add: mm_def col_def dot_def upt_0_3)

lemma T_2:
  "T \<lparr>nrows = 2, ncols = 2, rows = [[a, b], [c, d]]\<rparr>
     = \<lparr>nrows = 2, ncols = 2, rows = [[a, c], [b, d]]\<rparr>"
  by (simp add: T_def col_def upt_0_2)

lemma T_3:
  "T \<lparr>nrows = 3, ncols = 3, rows = [[a, b, c], [d, e, f], [g, h, k]]\<rparr>
     = \<lparr>nrows = 3, ncols = 3, rows = [[a, d, g], [b, e, h], [c, f, k]]\<rparr>"
  by (simp add: T_def col_def upt_0_3)

lemma det_mm:
  assumes "well_shaped A" "well_shaped B" "nrows A = n" "ncols A = n" "nrows B = n" "ncols B = n"
    and "n = 2 \<or> n = 3"
  shows "det (mm A B) = det A * det B"
proof -
  from assms(7) show ?thesis
  proof
    assume n: "n = 2"
    from assms n obtain a b c d where A: "A = \<lparr>nrows = 2, ncols = 2, rows = [[a, b], [c, d]]\<rparr>"
      by (auto elim: shape_2)
    from assms n obtain a' b' c' d' where B: "B = \<lparr>nrows = 2, ncols = 2, rows = [[a', b'], [c', d']]\<rparr>"
      by (auto elim: shape_2)
    show ?thesis unfolding A B mm_2 det_2 by (simp add: algebra_simps)
  next
    assume n: "n = 3"
    from assms n obtain a b c d e f g h k where
      A: "A = \<lparr>nrows = 3, ncols = 3, rows = [[a, b, c], [d, e, f], [g, h, k]]\<rparr>"
      by (auto elim: shape_3)
    from assms n obtain a' b' c' d' e' f' g' h' k' where
      B: "B = \<lparr>nrows = 3, ncols = 3, rows = [[a', b', c'], [d', e', f'], [g', h', k']]\<rparr>"
      by (auto elim: shape_3)
    show ?thesis unfolding A B mm_3 det_3 by (simp add: algebra_simps)
  qed
qed

lemma det_T:
  assumes "well_shaped A" "nrows A = n" "ncols A = n" "n = 2 \<or> n = 3"
  shows "det (T A) = det A"
proof -
  from assms(4) show ?thesis
  proof
    assume n: "n = 2"
    from assms n obtain a b c d where A: "A = \<lparr>nrows = 2, ncols = 2, rows = [[a, b], [c, d]]\<rparr>"
      by (auto elim: shape_2)
    show ?thesis unfolding A T_2 det_2 by (simp add: algebra_simps)
  next
    assume n: "n = 3"
    from assms n obtain a b c d e f g h k where
      A: "A = \<lparr>nrows = 3, ncols = 3, rows = [[a, b, c], [d, e, f], [g, h, k]]\<rparr>"
      by (auto elim: shape_3)
    show ?thesis unfolding A T_3 det_3 by (simp add: algebra_simps)
  qed
qed

lemma det_eye: "n = 2 \<or> n = 3 \<Longrightarrow> det (eye n) = 1"
  by (auto simp: eye_def det_def upt_0_2 upt_0_3)

lemma det_diag: "length S = 2 \<or> length S = 3 \<Longrightarrow> det (diag S) = prod_list S"
  by (auto simp: diag_def det_def upt_0_2 upt_0_3 numeral_2_eq_2 numeral_3_eq_3 length_Suc_conv)

section \<open>The body of the solve\<close>

lemma r_est_value:
  assumes "nrows observed = nrows catalog" "svd (mm (T observed) catalog) = (U, S, Vt)"
    and "is_svd (mm (T observed) catalog) (U, S, Vt)"
  shows "r_est svd observed catalog = Inr (mm (T Vt) (T U))"
proof -
  have "ncols U = nrows U" "ncols Vt = nrows Vt" "nrows U = nrows Vt"
    using assms(3) by (simp_all add: is_svd_def orthogonal_def)
  then show ?thesis
    using assms(1,2) by (simp add: r_est_def cross_covariance_def matmul_def)
qed

lemma from_matrix_proper:
  "nrows M = 3 \<Longrightarrow> ncols M = 3 \<Longrightarrow> proper_rotation M \<Longrightarrow> from_matrix improper M = Inr M"
  by (simp add: from_matrix_def)

lemma from_matrix_shape:
  "nrows M \<noteq> 3 \<or> ncols M \<noteq> 3 \<Longrightarrow> from_matrix improper M = Inl ValueError"
  by (simp add: from_matrix_def)

lemma from_matrix_improper:
  "nrows M = 3 \<Longrightarrow> ncols M = 3 \<Longrightarrow> \<not> proper_rotation M \<Longrightarrow> from_matrix improper M = improper M"
  by (simp add: from_matrix_def)

lemma from_matrix_rotation:
  assumes "gives_rotations improper" "from_matrix improper M = Inr Q"
  shows "nrows Q = 3 \<and> proper_rotation Q"
proof (cases "nrows M = 3 \<and> ncols M = 3 \<and> proper_rotation M")
  case True
  with assms(2) show ?thesis by (simp add: from_matrix_def)
next
  case False
  with assms(2) have "improper M = Inr Q"
    by (auto simp: from_matrix_def split: if_splits)
  with assms(1) show ?thesis by (simp add: gives_rotations_def)
qed

section \<open>The Gram matrix of a spanning catalog\<close>

lemma length_mv [simp]: "length (mv A v) = length (rows A)"
  by (simp add: mv_def)

lemma mv_nth:
  assumes "well_shaped A" "length v = ncols A" "i < nrows A"
  shows "mv A v ! i = (\<Sum>k<ncols A. ent A i k * v ! k)"
proof -
  have li: "i < length (rows A)" and lr: "length (rows A ! i) = ncols A"
    using assms(1,3) by (simp_all add: well_shaped_def)
  have "mv A v ! i = dot (rows A ! i) v" using li by (simp add: mv_def)
  also have "\<dots> = (\<Sum>k<ncols A. ent A i k * v ! k)"
    using dot_sum[of "rows A ! i" v] lr assms(2) by (simp add: ent_def)
  finally show ?thesis .
qed

lemma col_mm:
  assumes "well_shaped A" "well_shaped B" "ncols A = nrows B" "j < ncols B"
  shows "col (mm A B) j = mv A (col B j)"
proof (rule nth_equalityI)
  have "length (col (mm A B) j) = nrows A" using assms(1) by (simp add: length_col)
  moreover have "length (rows A) = nrows A" using assms(1) by (simp add: well_shaped_def)
  ultimately show "length (col (mm A B) j) = length (mv A (col B j))" by simp
next
  fix i assume "i < length (col (mm A B) j)"
  then have i: "i < nrows A" using assms(1) by (simp add: length_col)
  have "col (mm A B) j ! i = (\<Sum>k<ncols A. ent A i k * ent B k j)"
    using assms i by (simp add: col_nth ent_mm)
  also have "\<dots> = (\<Sum>k<ncols A. ent A i k * col B j ! k)"
    using assms by (intro sum.cong) (simp_all add: col_nth)
  also have "\<dots> = mv A (col B j) ! i"
    using assms i by (simp add: mv_nth length_col)
  finally show "col (mm A B) j ! i = mv A (col B j) ! i" .
qed

lemma ndarray_eq_colsI:
  assumes "well_shaped A" "well_shaped B" "nrows A = nrows B" "ncols A = ncols B"
    and "\<And>j. j < ncols A \<Longrightarrow> col A j = col B j"
  shows "A = B"
proof (rule ndarray_eqI)
  fix i j assume ij: "i < nrows A" "j < ncols A"
  have "ent A i j = col A j ! i" using assms(1) ij by (simp add: col_nth)
  also have "\<dots> = col B j ! i" using assms(5) ij by simp
  also have "\<dots> = ent B i j" using assms(2,3) ij by (simp add: col_nth)
  finally show "ent A i j = ent B i j" .
qed (use assms in simp_all)

lemma dot_self_nonneg: "0 \<le> dot x x"
  by (induction x) (simp_all add: dot_def)

lemma dot_self_zero: "dot x x = 0 \<Longrightarrow> x = replicate (length x) 0"
proof (induction x)
  case Nil
  then show ?case by simp
next
  case (Cons a x)
  have "dot (a # x) (a # x) = a * a + dot x x" by (simp add: dot_def)
  with Cons.prems dot_self_nonneg[of x] have "a * a = 0" "dot x x = 0"
    by (simp_all add: add_nonneg_eq_0_iff)
  with Cons.IH show ?case by simp
qed

lemma dot_mv_gram:
  assumes "well_shaped C" "ncols C = n" "length w = n"
  shows "dot w (mv (mm (T C) C) w) = dot (mv C w) (mv C w)"
proof -
  let ?m = "nrows C"
  have lm: "length (mv C w) = ?m" using assms(1) by (simp add: well_shaped_def)
  have "dot w (mv (mm (T C) C) w) = (\<Sum>j<n. w ! j * mv (mm (T C) C) w ! j)"
    using assms by (simp add: dot_sum well_shaped_def T_def mm_def)
  also have "\<dots> = (\<Sum>j<n. w ! j * (\<Sum>k<n. (\<Sum>i<?m. ent C i j * ent C i k) * w ! k))"
  proof (intro sum.cong refl)
    fix j assume "j \<in> {..<n}"
    then have j: "j < n" by simp
    have "mv (mm (T C) C) w ! j = (\<Sum>k<n. ent (mm (T C) C) j k * w ! k)"
      using assms j by (simp add: mv_nth)
    also have "\<dots> = (\<Sum>k<n. (\<Sum>i<?m. ent C i j * ent C i k) * w ! k)"
      using assms j by (intro sum.cong) (simp_all add: ent_mm ent_T)
    finally show "w ! j * mv (mm (T C) C) w ! j
        = w ! j * (\<Sum>k<n. (\<Sum>i<?m. ent C i j * ent C i k) * w ! k)" by simp
  qed
  also have "\<dots> = (\<Sum>j<n. \<Sum>k<n. \<Sum>i<?m. (ent C i j * w ! j) * (ent C i k * w ! k))"
    by (simp add: sum_distrib_left sum_distrib_right mult_ac)
  also have "\<dots> = (\<Sum>i<?m. \<Sum>j<n. \<Sum>k<n. (ent C i j * w ! j) * (ent C i k * w ! k))"
  proof -
    have "(\<Sum>j<n. \<Sum>k<n. \<Sum>i<?m. (ent C i j * w ! j) * (ent C i k * w ! k))
        = (\<Sum>j<n. \<Sum>i<?m. \<Sum>k<n. (ent C i j * w ! j) * (ent C i k * w ! k))"
      by (intro sum.cong refl sum.swap)
    also have "\<dots> = (\<Sum>i<?m. \<Sum>j<n. \<Sum>k<n. (ent C i j * w ! j) * (ent C i k * w ! k))"
      by (rule sum.swap)
    finally show ?thesis .
  qed
  also have "\<dots> = (\<Sum>i<?m. (\<Sum>j<n. ent C i j * w ! j) * (\<Sum>k<n. ent C i k * w ! k))"
    by (simp add: sum_product)
  also have "\<dots> = (\<Sum>i<?m. mv C w ! i * mv C w ! i)"
    using assms by (intro sum.cong) (simp_all add: mv_nth)
  also have "\<dots> = dot (mv C w) (mv C w)"
    using lm by (simp add: dot_sum)
  finally show ?thesis .
qed

lemma gram_kernel_core:
  assumes "well_shaped C" "ncols C = n" "length w = n" "0 \<le> s"
    and "\<And>j. j < n \<Longrightarrow> mv (mm (T C) C) w ! j + s * w ! j = 0"
  shows "mv C w = replicate (length (rows C)) 0" "s * dot w w = 0"
proof -
  let ?M = "mm (T C) C"
  have lM: "length (mv ?M w) = n" using assms(1,2) by (simp add: T_def mm_def)
  have "dot w (mv ?M w) + s * dot w w = (\<Sum>j<n. w ! j * (mv ?M w ! j + s * w ! j))"
    using assms(3) lM by (simp add: dot_sum sum.distrib sum_distrib_left algebra_simps)
  also have "\<dots> = 0" using assms(5) by simp
  finally have "dot (mv C w) (mv C w) + s * dot w w = 0"
    using assms by (simp add: dot_mv_gram)
  moreover have "0 \<le> dot (mv C w) (mv C w)" "0 \<le> s * dot w w"
    using assms(4) by (simp_all add: dot_self_nonneg)
  ultimately have z: "dot (mv C w) (mv C w) = 0" "s * dot w w = 0" by linarith+
  show "mv C w = replicate (length (rows C)) 0"
    using dot_self_zero[of "mv C w"] z(1) by simp
  show "s * dot w w = 0" by (rule z(2))
qed

lemma mv_zero_rows:
  assumes "mv C w = replicate (length (rows C)) 0"
  shows "\<forall>c \<in> set (rows C). dot c w = 0"
proof -
  from assms have "map (\<lambda>c. dot c w) (rows C) = map (\<lambda>c. 0) (rows C)"
    by (simp add: mv_def map_replicate_const)
  then show ?thesis by (simp only: map_eq_conv)
qed

lemma gram_kernel:
  assumes "well_shaped C" "ncols C = n" "spans n C" "length w = n" "0 \<le> s"
    and "\<And>j. j < n \<Longrightarrow> mv (mm (T C) C) w ! j + s * w ! j = 0"
  shows "w = replicate n 0"
proof -
  have "mv C w = replicate (length (rows C)) 0"
    using assms(1,2,4,5,6) by (rule gram_kernel_core(1))
  then have "\<forall>c \<in> set (rows C). dot c w = 0" by (rule mv_zero_rows)
  with assms(3,4) show ?thesis by (simp add: spans_def)
qed

lemma dot_replicate_zero [simp]: "dot (replicate m 0) x = 0"
proof (induction m arbitrary: x)
  case 0
  then show ?case by (simp add: dot_def)
next
  case (Suc m)
  then show ?case by (cases x) (simp_all add: dot_def)
qed

lemma dot_mv_gram2:
  assumes "well_shaped C" "ncols C = n" "length u = n" "length w = n"
  shows "dot u (mv (mm (T C) C) w) = dot (mv C u) (mv C w)"
proof -
  let ?m = "nrows C"
  have lm: "length (mv C u) = ?m" "length (mv C w) = ?m"
    using assms(1) by (simp_all add: well_shaped_def)
  have "dot u (mv (mm (T C) C) w) = (\<Sum>j<n. u ! j * mv (mm (T C) C) w ! j)"
    using assms by (simp add: dot_sum well_shaped_def T_def mm_def)
  also have "\<dots> = (\<Sum>j<n. u ! j * (\<Sum>k<n. (\<Sum>i<?m. ent C i j * ent C i k) * w ! k))"
  proof (intro sum.cong refl)
    fix j assume "j \<in> {..<n}"
    then have j: "j < n" by simp
    have "mv (mm (T C) C) w ! j = (\<Sum>k<n. ent (mm (T C) C) j k * w ! k)"
      using assms j by (simp add: mv_nth)
    also have "\<dots> = (\<Sum>k<n. (\<Sum>i<?m. ent C i j * ent C i k) * w ! k)"
      using assms j by (intro sum.cong) (simp_all add: ent_mm ent_T)
    finally show "u ! j * mv (mm (T C) C) w ! j
        = u ! j * (\<Sum>k<n. (\<Sum>i<?m. ent C i j * ent C i k) * w ! k)" by simp
  qed
  also have "\<dots> = (\<Sum>j<n. \<Sum>k<n. \<Sum>i<?m. (ent C i j * u ! j) * (ent C i k * w ! k))"
    by (simp add: sum_distrib_left sum_distrib_right mult_ac)
  also have "\<dots> = (\<Sum>i<?m. \<Sum>j<n. \<Sum>k<n. (ent C i j * u ! j) * (ent C i k * w ! k))"
  proof -
    have "(\<Sum>j<n. \<Sum>k<n. \<Sum>i<?m. (ent C i j * u ! j) * (ent C i k * w ! k))
        = (\<Sum>j<n. \<Sum>i<?m. \<Sum>k<n. (ent C i j * u ! j) * (ent C i k * w ! k))"
      by (intro sum.cong refl sum.swap)
    also have "\<dots> = (\<Sum>i<?m. \<Sum>j<n. \<Sum>k<n. (ent C i j * u ! j) * (ent C i k * w ! k))"
      by (rule sum.swap)
    finally show ?thesis .
  qed
  also have "\<dots> = (\<Sum>i<?m. (\<Sum>j<n. ent C i j * u ! j) * (\<Sum>k<n. ent C i k * w ! k))"
    by (simp add: sum_product)
  also have "\<dots> = (\<Sum>i<?m. mv C u ! i * mv C w ! i)"
    using assms by (intro sum.cong) (simp_all add: mv_nth)
  also have "\<dots> = dot (mv C u) (mv C w)"
    using lm by (simp add: dot_sum)
  finally show ?thesis .
qed

lemma gram_eigen:
  assumes "well_shaped C" "ncols C = n" "length v = n" "0 \<le> s"
    and "mv (mm (T C) C) (mv (mm (T C) C) v) = map ((*) (s * s)) v"
  shows "mv (mm (T C) C) v = map ((*) s) v"
proof -
  let ?M = "mm (T C) C"
  define w where "w = map (\<lambda>j. mv ?M v ! j - s * v ! j) [0..<n]"
  have M: "well_shaped ?M" "nrows ?M = n" "ncols ?M = n"
    using assms(1,2) by simp_all
  have lMv: "length (mv ?M v) = n" using M by (simp add: well_shaped_def)
  have lw: "length w = n" by (simp add: w_def)
  have wj: "w ! j = mv ?M v ! j - s * v ! j" if "j < n" for j
    using that by (simp add: w_def)
  have z: "mv ?M w ! j + s * w ! j = 0" if j: "j < n" for j
  proof -
    have "mv ?M w ! j = (\<Sum>k<n. ent ?M j k * w ! k)"
      using M lw j by (simp add: mv_nth)
    also have "\<dots> = (\<Sum>k<n. ent ?M j k * mv ?M v ! k - s * (ent ?M j k * v ! k))"
      by (intro sum.cong) (simp_all add: wj algebra_simps)
    also have "\<dots> = (\<Sum>k<n. ent ?M j k * mv ?M v ! k) - s * (\<Sum>k<n. ent ?M j k * v ! k)"
      by (simp add: sum_subtractf sum_distrib_left)
    also have "\<dots> = mv ?M (mv ?M v) ! j - s * mv ?M v ! j"
      using M lMv assms(3) j by (simp add: mv_nth)
    also have "\<dots> = s * s * v ! j - s * mv ?M v ! j"
      using assms(3,5) j by simp
    finally show ?thesis using j by (simp add: wj algebra_simps)
  qed
  have Cw: "mv C w = replicate (length (rows C)) 0"
    using assms(1,2) lw assms(4) z by (rule gram_kernel_core(1))
  have sw: "s * dot w w = 0"
    using assms(1,2) lw assms(4) z by (rule gram_kernel_core(2))
  have "dot w w = 0"
  proof (cases "s = 0")
    case True
    then have "w ! j = mv ?M v ! j" if "j < n" for j using wj[OF that] by simp
    then have "w = mv ?M v" using lw lMv by (intro nth_equalityI) simp_all
    then have "dot w w = dot w (mv ?M v)" by simp
    also have "\<dots> = dot (mv C w) (mv C v)"
      using assms(1,2) lw assms(3) by (rule dot_mv_gram2)
    also have "\<dots> = 0" by (simp add: Cw)
    finally show ?thesis .
  next
    case False
    with sw show ?thesis by simp
  qed
  then have "w = replicate n 0" using dot_self_zero[of w] lw by simp
  then have "mv ?M v ! j = s * v ! j" if "j < n" for j
    using wj[OF that] that by simp
  with lMv assms(3) show ?thesis by (intro nth_equalityI) simp_all
qed

lemma gram_inj:
  assumes "well_shaped C" "ncols C = n" "spans n C" "length x = n" "length y = n"
    and "mv (mm (T C) C) x = mv (mm (T C) C) y"
  shows "x = y"
proof -
  let ?M = "mm (T C) C"
  define w where "w = map (\<lambda>j. x ! j - y ! j) [0..<n]"
  have M: "well_shaped ?M" "nrows ?M = n" "ncols ?M = n"
    using assms(1,2) by simp_all
  have lw: "length w = n" by (simp add: w_def)
  have wj: "w ! j = x ! j - y ! j" if "j < n" for j
    using that by (simp add: w_def)
  have z: "mv ?M w ! j + 0 * w ! j = 0" if j: "j < n" for j
  proof -
    have "mv ?M w ! j = (\<Sum>k<n. ent ?M j k * w ! k)"
      using M lw j by (simp add: mv_nth)
    also have "\<dots> = (\<Sum>k<n. ent ?M j k * x ! k - ent ?M j k * y ! k)"
      by (intro sum.cong) (simp_all add: wj algebra_simps)
    also have "\<dots> = (\<Sum>k<n. ent ?M j k * x ! k) - (\<Sum>k<n. ent ?M j k * y ! k)"
      by (simp add: sum_subtractf)
    also have "\<dots> = mv ?M x ! j - mv ?M y ! j"
      using M assms(4,5) j by (simp add: mv_nth)
    finally show ?thesis using assms(6) by simp
  qed
  have "w = replicate n 0"
    using assms(1-3) lw _ z by (rule gram_kernel[where s = 0]) simp
  then have "x ! j = y ! j" if "j < n" for j
    using wj[OF that] that by simp
  with assms(4,5) show ?thesis by (intro nth_equalityI) simp_all
qed

lemma well_shaped_diag [simp]: "well_shaped (diag S)"
  by (auto simp: well_shaped_def diag_def)

lemma nrows_diag [simp]: "nrows (diag S) = length S"
  by (simp add: diag_def)

lemma ncols_diag [simp]: "ncols (diag S) = length S"
  by (simp add: diag_def)

lemma ent_diag: "i < length S \<Longrightarrow> j < length S \<Longrightarrow> ent (diag S) i j = (if i = j then S ! i else 0)"
  by (simp add: ent_def diag_def)

lemma T_diag [simp]: "T (diag S) = diag S"
  by (rule ndarray_eqI) (auto simp: ent_T ent_diag)

lemma col_mm_diag:
  assumes "well_shaped A" "ncols A = length S" "j < length S"
  shows "col (mm A (diag S)) j = map ((*) (S ! j)) (col A j)"
proof (rule nth_equalityI)
  show "length (col (mm A (diag S)) j) = length (map ((*) (S ! j)) (col A j))"
    using assms(1) by (simp add: length_col)
next
  fix i assume "i < length (col (mm A (diag S)) j)"
  then have i: "i < nrows A" using assms(1) by (simp add: length_col)
  have "col (mm A (diag S)) j ! i = (\<Sum>k<length S. ent A i k * ent (diag S) k j)"
    using assms i by (simp add: col_nth ent_mm)
  also have "\<dots> = (\<Sum>k<length S. if k = j then ent A i j * S ! j else 0)"
    using assms by (intro sum.cong) (simp_all add: ent_diag)
  also have "\<dots> = S ! j * ent A i j"
    using assms(3) by simp
  finally show "col (mm A (diag S)) j ! i = map ((*) (S ! j)) (col A j) ! i"
    using assms(1) i by (simp add: length_col col_nth)
qed

lemma well_shaped_rotate_rows [simp]: "well_shaped R\<^sub>0 \<Longrightarrow> well_shaped A \<Longrightarrow> well_shaped (rotate_rows R\<^sub>0 A)"
  by (auto simp: well_shaped_def rotate_rows_def)

lemma nrows_rotate_rows [simp]: "nrows (rotate_rows R\<^sub>0 A) = nrows A"
  by (simp add: rotate_rows_def)

lemma ncols_rotate_rows [simp]: "ncols (rotate_rows R\<^sub>0 A) = nrows R\<^sub>0"
  by (simp add: rotate_rows_def)

lemma rotate_rows_mm:
  assumes "well_shaped R\<^sub>0" "well_shaped A" "ncols A = ncols R\<^sub>0"
  shows "rotate_rows R\<^sub>0 A = mm A (T R\<^sub>0)"
proof (rule ndarray_eqI)
  fix i j assume "i < nrows (rotate_rows R\<^sub>0 A)" "j < ncols (rotate_rows R\<^sub>0 A)"
  then have ij: "i < nrows A" "j < nrows R\<^sub>0" by simp_all
  have li: "i < length (rows A)" "length (rows A ! i) = ncols R\<^sub>0"
    using assms(2,3) ij by (simp_all add: well_shaped_def)
  have "ent (rotate_rows R\<^sub>0 A) i j = mv R\<^sub>0 (rows A ! i) ! j"
    using li by (simp add: ent_def rotate_rows_def)
  also have "\<dots> = (\<Sum>k<ncols R\<^sub>0. ent R\<^sub>0 j k * ent A i k)"
    using assms li ij by (simp add: mv_nth ent_def)
  also have "\<dots> = (\<Sum>k<ncols A. ent A i k * ent (T R\<^sub>0) k j)"
    using assms ij by (intro sum.cong) (simp_all add: ent_T)
  also have "\<dots> = ent (mm A (T R\<^sub>0)) i j"
    using assms ij by (simp add: ent_mm)
  finally show "ent (rotate_rows R\<^sub>0 A) i j = ent (mm A (T R\<^sub>0)) i j" .
qed (use assms in simp_all)

section \<open>The solve inverts the rotation\<close>

text \<open>
  When the observations are the catalog rotated by \<open>R\<^sub>0\<close>, the cross-covariance is
  \<open>H = R\<^sub>0 M\<close> with \<open>M = catalog\<^sup>t catalog\<close> symmetric and, for a spanning
  catalog, positive definite. Whatever decomposition \<open>H = U \<Sigma> Vt\<close> is taken, the
  columns of \<open>V\<close> are eigenvectors of \<open>M\<^sup>2\<close> and hence of \<open>M\<close>, so
  \<open>M = V \<Sigma> Vt\<close> and \<open>U Vt = R\<^sub>0\<close>.
\<close>

lemma mm_cancel_left:
  assumes "well_shaped A" "well_shaped B" "well_shaped X"
    and "ncols A = nrows B" "ncols B = nrows X" "mm A B = eye (nrows X)"
  shows "mm A (mm B X) = X"
proof -
  have "mm A (mm B X) = mm (mm A B) X" using assms(1-5) by (simp add: mm_assoc)
  also have "\<dots> = X" using assms(3,6) by simp
  finally show ?thesis .
qed

lemma mm_cancel_right:
  assumes "well_shaped A" "well_shaped B" "well_shaped X"
    and "ncols X = nrows A" "ncols A = nrows B" "mm A B = eye (ncols X)"
  shows "mm (mm X A) B = X"
proof -
  have "mm (mm X A) B = mm X (mm A B)" using assms(1-5) by (simp add: mm_assoc)
  also have "\<dots> = X" using assms(3,6) by simp
  finally show ?thesis .
qed

lemma orthogonalD:
  assumes "orthogonal Q" "nrows Q = n"
  shows "well_shaped Q" "ncols Q = n" "mm (T Q) Q = eye n" "mm Q (T Q) = eye n"
proof -
  from assms(1) have w: "well_shaped Q" and sq: "nrows Q = ncols Q"
    and a: "mm (T Q) Q = eye (ncols Q)" and b: "mm Q (T Q) = eye (nrows Q)"
    unfolding orthogonal_def by blast+
  from sq assms(2) have c: "ncols Q = n" by simp
  show "well_shaped Q" by (rule w)
  show "ncols Q = n" by (rule c)
  show "mm (T Q) Q = eye n" using a c by simp
  show "mm Q (T Q) = eye n" using b assms(2) by simp
qed

lemma is_svdD:
  assumes "is_svd H (U, S, Vt)"
  shows "nrows H = ncols H" "orthogonal U" "nrows U = nrows H" "orthogonal Vt" "nrows Vt = nrows H"
    "length S = nrows H" "\<forall>s \<in> set S. 0 \<le> s" "mm (mm U (diag S)) Vt = H"
  using assms unfolding is_svd_def by simp_all

lemma kabsch_facts:
  assumes C: "well_shaped C" "ncols C = n"
    and R0: "orthogonal R\<^sub>0" "nrows R\<^sub>0 = n"
    and svd: "is_svd (mm (T (rotate_rows R\<^sub>0 C)) C) (U, S, Vt)"
  shows "mm (T (rotate_rows R\<^sub>0 C)) C = mm R\<^sub>0 (mm (T C) C)"
    and "mm (mm (T C) C) (T Vt) = mm (T Vt) (diag S)"
    and "mm U (diag S) = mm (mm R\<^sub>0 (T Vt)) (diag S)"
proof -
  define M where "M = mm (T C) C"
  define V where "V = T Vt"
  define D where "D = diag S"
  define H where "H = mm (T (rotate_rows R\<^sub>0 C)) C"
  have sR: "well_shaped R\<^sub>0" "nrows R\<^sub>0 = n" "ncols R\<^sub>0 = n"
    and oR: "mm (T R\<^sub>0) R\<^sub>0 = eye n" "mm R\<^sub>0 (T R\<^sub>0) = eye n"
    using orthogonalD[OF R0] R0(2) by simp_all
  have sH: "nrows H = n" "ncols H = n" using C sR by (simp_all add: H_def)
  have svdH: "is_svd H (U, S, Vt)" using svd by (simp add: H_def)
  have nU: "nrows U = n" and nVt: "nrows Vt = n"
    using is_svdD(3,5)[OF svdH] sH by simp_all
  have sU: "well_shaped U" "nrows U = n" "ncols U = n"
    and oU: "mm (T U) U = eye n" "mm U (T U) = eye n"
    using orthogonalD[OF is_svdD(2)[OF svdH] nU] nU by simp_all
  have sVt: "well_shaped Vt" "nrows Vt = n" "ncols Vt = n"
    and oVt: "mm (T Vt) Vt = eye n" "mm Vt (T Vt) = eye n"
    using orthogonalD[OF is_svdD(4)[OF svdH] nVt] nVt by simp_all
  have lS: "length S = n" and S0: "\<forall>s \<in> set S. 0 \<le> s"
    and UDV: "mm (mm U D) Vt = H"
    using is_svdD(6,7,8)[OF svdH] sH by (simp_all add: D_def)
  have sV: "well_shaped V" "nrows V = n" "ncols V = n" using sVt by (simp_all add: V_def)
  have oV: "mm Vt V = eye n" "mm V Vt = eye n" using oVt sVt by (simp_all add: V_def)
  have sD: "well_shaped D" "nrows D = n" "ncols D = n" "T D = D" using lS by (simp_all add: D_def)
  have sM: "well_shaped M" "nrows M = n" "ncols M = n" using C by (simp_all add: M_def)
  have TM: "T M = M" using C by (simp add: M_def T_mm)
  have sC: "well_shaped (T C)" "nrows (T C) = n" "ncols C = n" using C by simp_all
  have H: "H = mm R\<^sub>0 M"
  proof -
    have "rotate_rows R\<^sub>0 C = mm C (T R\<^sub>0)" using C sR by (simp add: rotate_rows_mm)
    then have "H = mm (T (mm C (T R\<^sub>0))) C" by (simp add: H_def)
    also have "\<dots> = mm (mm R\<^sub>0 (T C)) C" using C sR by (simp add: T_mm)
    also have "\<dots> = mm R\<^sub>0 M" unfolding M_def using C sR by (simp add: mm_assoc)
    finally show ?thesis .
  qed
  have HV: "mm H V = mm U D"
    unfolding UDV[symmetric] using sU sD sVt sV oV by (intro mm_cancel_right) simp_all
  have MV: "mm M V = mm (T R\<^sub>0) (mm U D)"
  proof -
    have "mm (T R\<^sub>0) (mm H V) = mm (T R\<^sub>0) (mm R\<^sub>0 (mm M V))"
      unfolding H using sR sM sV by (simp add: mm_assoc)
    also have "\<dots> = mm M V" using sR sM sV oR by (intro mm_cancel_left) simp_all
    finally show ?thesis using HV by simp
  qed
  have TH1: "T H = mm M (T R\<^sub>0)" unfolding H using sR sM TM by (simp add: T_mm)
  have TH2: "T H = mm V (mm D (T U))"
    unfolding UDV[symmetric] V_def using sU sD sVt by (simp add: T_mm)
  have THU: "mm (mm M (T R\<^sub>0)) U = mm V D"
  proof -
    have "mm (mm V (mm D (T U))) U = mm (mm V D) (mm (T U) U)"
      using sU sD sV by (simp add: mm_assoc)
    also have "\<dots> = mm V D" using oU sV sD by simp
    finally show ?thesis using TH1 TH2 by simp
  qed
  have MMV: "mm M (mm M V) = mm (mm V D) D"
  proof -
    have "mm M (mm M V) = mm M (mm (T R\<^sub>0) (mm U D))" using MV by simp
    also have "\<dots> = mm (mm (mm M (T R\<^sub>0)) U) D" using sM sR sU sD by (simp add: mm_assoc)
    finally show ?thesis using THU by simp
  qed
  have eig: "mv M (col V j) = map ((*) (S ! j)) (col V j)" if j: "j < n" for j
  proof -
    have "mv M (mv M (col V j)) = col (mm M (mm M V)) j"
      using sM sV j by (simp add: col_mm)
    also have "\<dots> = map ((*) (S ! j)) (col (mm V D) j)"
      unfolding MMV D_def using sV lS j by (simp add: col_mm_diag)
    also have "\<dots> = map ((*) (S ! j * S ! j)) (col V j)"
      unfolding D_def using sV lS j by (simp add: col_mm_diag mult.assoc)
    finally have e: "mv (mm (T C) C) (mv (mm (T C) C) (col V j)) = map ((*) (S ! j * S ! j)) (col V j)"
      by (simp only: M_def)
    have s: "0 \<le> S ! j" using S0 lS j by simp
    have l: "length (col V j) = n" using sV by (simp add: length_col)
    from C(1) C(2) l s e have "mv (mm (T C) C) (col V j) = map ((*) (S ! j)) (col V j)"
      by (rule gram_eigen)
    then show ?thesis by (simp only: M_def)
  qed
  have MVD: "mm M V = mm V D"
  proof (rule ndarray_eq_colsI)
    fix j assume "j < ncols (mm M V)"
    then have j: "j < n" using sV by simp
    have "col (mm M V) j = mv M (col V j)" using sM sV j by (simp add: col_mm)
    also have "\<dots> = col (mm V D) j"
      unfolding D_def using eig[OF j] sV lS j by (simp add: col_mm_diag)
    finally show "col (mm M V) j = col (mm V D) j" .
  qed (use sM sV sD in simp_all)
  have "mm U D = mm (mm R\<^sub>0 M) V" using HV H by simp
  also have "\<dots> = mm R\<^sub>0 (mm M V)" using sR sM sV by (simp add: mm_assoc)
  also have "\<dots> = mm (mm R\<^sub>0 V) D" unfolding MVD using sR sV sD by (simp add: mm_assoc)
  finally have UD: "mm U D = mm (mm R\<^sub>0 V) D" .
  show "mm (T (rotate_rows R\<^sub>0 C)) C = mm R\<^sub>0 (mm (T C) C)"
    using H by (simp only: H_def M_def)
  show "mm (mm (T C) C) (T Vt) = mm (T Vt) (diag S)"
    using MVD by (simp only: M_def V_def D_def)
  show "mm U (diag S) = mm (mm R\<^sub>0 (T Vt)) (diag S)"
    using UD by (simp only: V_def D_def)
qed

lemma kabsch_inverse:
  assumes C: "well_shaped C" "ncols C = n" "spans n C"
    and R0: "orthogonal R\<^sub>0" "nrows R\<^sub>0 = n"
    and svd: "is_svd (mm (T (rotate_rows R\<^sub>0 C)) C) (U, S, Vt)"
  shows "mm (T Vt) (T U) = T R\<^sub>0"
proof -
  define M where "M = mm (T C) C"
  define V where "V = T Vt"
  define D where "D = diag S"
  define H where "H = mm (T (rotate_rows R\<^sub>0 C)) C"
  define Q where "Q = mm U Vt"
  have sR: "well_shaped R\<^sub>0" "nrows R\<^sub>0 = n" "ncols R\<^sub>0 = n"
    and oR: "mm (T R\<^sub>0) R\<^sub>0 = eye n" "mm R\<^sub>0 (T R\<^sub>0) = eye n"
    using orthogonalD[OF R0] R0(2) by simp_all
  have sH: "nrows H = n" "ncols H = n" using C sR by (simp_all add: H_def)
  have svdH: "is_svd H (U, S, Vt)" using svd by (simp add: H_def)
  have nU: "nrows U = n" and nVt: "nrows Vt = n"
    using is_svdD(3,5)[OF svdH] sH by simp_all
  have sU: "well_shaped U" "nrows U = n" "ncols U = n"
    and oU: "mm (T U) U = eye n" "mm U (T U) = eye n"
    using orthogonalD[OF is_svdD(2)[OF svdH] nU] nU by simp_all
  have sVt: "well_shaped Vt" "nrows Vt = n" "ncols Vt = n"
    and oVt: "mm (T Vt) Vt = eye n" "mm Vt (T Vt) = eye n"
    using orthogonalD[OF is_svdD(4)[OF svdH] nVt] nVt by simp_all
  have lS: "length S = n" and S0: "\<forall>s \<in> set S. 0 \<le> s"
    and UDV: "mm (mm U D) Vt = H"
    using is_svdD(6,7,8)[OF svdH] sH by (simp_all add: D_def)
  have sV: "well_shaped V" "nrows V = n" "ncols V = n" using sVt by (simp_all add: V_def)
  have oV: "mm Vt V = eye n" "mm V Vt = eye n" using oVt sVt by (simp_all add: V_def)
  have sD: "well_shaped D" "nrows D = n" "ncols D = n" "T D = D" using lS by (simp_all add: D_def)
  have sM: "well_shaped M" "nrows M = n" "ncols M = n" using C by (simp_all add: M_def)
  have TM: "T M = M" using C by (simp add: M_def T_mm)
  have sC: "well_shaped (T C)" "nrows (T C) = n" "ncols C = n" using C by simp_all
  have H: "H = mm R\<^sub>0 M"
    using kabsch_facts(1)[OF C(1,2) R0 svd] by (simp only: H_def M_def)
  have MVD: "mm M V = mm V D"
    using kabsch_facts(2)[OF C(1,2) R0 svd] by (simp only: M_def V_def D_def)
  have M: "M = mm (mm V D) Vt"
  proof -
    have "mm (mm M V) Vt = M" using sM sV sVt oV by (intro mm_cancel_right) simp_all
    then show ?thesis using MVD by simp
  qed
  have sQ: "well_shaped Q" "nrows Q = n" "ncols Q = n" using sU sVt by (simp_all add: Q_def)
  have QM: "mm Q M = mm R\<^sub>0 M"
  proof -
    have "mm Q M = mm (mm U Vt) (mm V (mm D Vt))"
      unfolding Q_def using sV sD sVt by (subst M) (simp add: mm_assoc)
    also have "\<dots> = mm U (mm Vt (mm V (mm D Vt)))"
      using sU sVt sV sD by (simp add: mm_assoc)
    also have "mm Vt (mm V (mm D Vt)) = mm D Vt"
      using sVt sV sD oV by (intro mm_cancel_left) simp_all
    also have "mm U (mm D Vt) = H"
      unfolding UDV[symmetric] using sU sD sVt by (simp add: mm_assoc)
    finally show ?thesis using H by simp
  qed
  have MTQ: "mm M (T Q) = mm M (T R\<^sub>0)"
  proof -
    have "mm M (T Q) = T (mm Q M)" using sQ sM TM by (simp add: T_mm)
    also have "\<dots> = mm M (T R\<^sub>0)" unfolding QM using sR sM TM by (simp add: T_mm)
    finally show ?thesis .
  qed
  have cols: "mv M (col (T Q) j) = mv M (col (T R\<^sub>0) j)" if j: "j < n" for j
  proof -
    have "mv M (col (T Q) j) = col (mm M (T Q)) j" using sM sQ j by (simp add: col_mm)
    also have "\<dots> = col (mm M (T R\<^sub>0)) j" by (simp only: MTQ)
    also have "\<dots> = mv M (col (T R\<^sub>0) j)" using sM sR j by (simp add: col_mm)
    finally show ?thesis .
  qed
  have "T Q = T R\<^sub>0"
  proof (rule ndarray_eq_colsI)
    fix j assume "j < ncols (T Q)"
    then have j: "j < n" using sQ by simp
    have l: "length (col (T Q) j) = n" "length (col (T R\<^sub>0) j) = n"
      using sQ sR by (simp_all add: length_col)
    have e: "mv (mm (T C) C) (col (T Q) j) = mv (mm (T C) C) (col (T R\<^sub>0) j)"
      using cols[OF j] by (simp only: M_def)
    from C(1) C(2) C(3) l(1) l(2) e show "col (T Q) j = col (T R\<^sub>0) j"
      by (rule gram_inj)
  qed (use sQ sR in simp_all)
  moreover have "mm (T Vt) (T U) = T Q" unfolding Q_def using sU sVt by (simp add: T_mm)
  ultimately show ?thesis by simp
qed



lemma T_eye [simp]: "T (eye n) = eye n"
  by (rule ndarray_eqI) (auto simp: ent_T ent_eye)

lemma orthogonal_eye [simp]: "orthogonal (eye n)"
  by (simp add: orthogonal_def)



lemma spans_axes_2: "spans 2 (array [[1, 0], [0, 1]])"
  unfolding spans_def
proof (intro allI impI)
  fix w :: "real list"
  assume a: "length w = 2 \<and> (\<forall>c \<in> set (rows (array [[1, 0], [0, 1]])). dot c w = 0)"
  then obtain x y where w: "w = [x, y]"
    by (auto simp: numeral_2_eq_2 length_Suc_conv)
  with a show "w = replicate 2 0"
    by (simp add: array_def dot_def numeral_2_eq_2)
qed

lemma spans_axes_3: "spans 3 (array [[1, 0, 0], [0, 1, 0], [0, 0, 1]])"
  unfolding spans_def
proof (intro allI impI)
  fix w :: "real list"
  assume a: "length w = 3 \<and> (\<forall>c \<in> set (rows (array [[1, 0, 0], [0, 1, 0], [0, 0, 1]])). dot c w = 0)"
  then obtain x y z where w: "w = [x, y, z]"
    by (auto simp: numeral_3_eq_3 length_Suc_conv)
  with a show "w = replicate 3 0"
    by (simp add: array_def dot_def numeral_3_eq_3)
qed

section \<open>Catalogs that do not span the space\<close>

text \<open>
  In three dimensions a catalog whose vectors are not all collinear has at least two
  positive singular values. The first two columns of \<open>U\<close> are then those of
  \<open>R\<^sub>0 V\<close>, and the third is fixed up to its sign: either \<open>U Vt = R\<^sub>0\<close>, or
  \<open>U Vt\<close> is a reflection.
\<close>

lemma det_orthogonal:
  assumes "orthogonal Q" "nrows Q = n" "n = 2 \<or> n = 3"
  shows "det Q = 1 \<or> det Q = - 1"
proof -
  note Q = orthogonalD[OF assms(1,2)]
  have "det (mm (T Q) Q) = det (T Q) * det Q"
    using Q(1,2) assms(2,3) by (intro det_mm[where n = n]) simp_all
  also have "det (T Q) = det Q"
    using Q(1,2) assms(2,3) by (intro det_T[where n = n]) simp_all
  finally have "det Q * det Q = 1"
    using Q(3) assms(3) by (simp add: det_eye)
  then show ?thesis by (simp add: square_eq_1_iff)
qed

lemma orthogonal_3_rows:
  assumes "orthogonal \<lparr>nrows = 3, ncols = 3, rows = [[a, b, c], [d, e, f], [g, h, k]]\<rparr>"
  shows "a * a + (b * b + c * c) = 1" "a * d + (b * e + c * f) = 0" "a * g + (b * h + c * k) = 0"
    "d * d + (e * e + f * f) = 1" "d * g + (e * h + f * k) = 0" "g * g + (h * h + k * k) = 1"
proof -
  let ?U = "\<lparr>nrows = 3, ncols = 3, rows = [[a, b, c], [d, e, f], [g, h, k]]\<rparr>"
  have "mm ?U (T ?U) = eye 3" using orthogonalD(4)[OF assms] by simp
  then show "a * a + (b * b + c * c) = 1" "a * d + (b * e + c * f) = 0" "a * g + (b * h + c * k) = 0"
    "d * d + (e * e + f * f) = 1" "d * g + (e * h + f * k) = 0" "g * g + (h * h + k * k) = 1"
    by (simp_all add: T_3 mm_3 eye_def upt_0_3)
qed

lemma orthogonal_3_cross:
  assumes "orthogonal \<lparr>nrows = 3, ncols = 3, rows = [[a, b, c], [d, e, f], [g, h, k]]\<rparr>"
  shows "d * h - e * g = c * det \<lparr>nrows = 3, ncols = 3, rows = [[a, b, c], [d, e, f], [g, h, k]]\<rparr>"
    and "b * g - a * h = f * det \<lparr>nrows = 3, ncols = 3, rows = [[a, b, c], [d, e, f], [g, h, k]]\<rparr>"
    and "a * e - b * d = k * det \<lparr>nrows = 3, ncols = 3, rows = [[a, b, c], [d, e, f], [g, h, k]]\<rparr>"
proof -
  let ?U = "\<lparr>nrows = 3, ncols = 3, rows = [[a, b, c], [d, e, f], [g, h, k]]\<rparr>"
  note r = orthogonal_3_rows[OF assms]
  have "(a * a + (b * b + c * c)) * (d * h - e * g) + (a * d + (b * e + c * f)) * (b * g - a * h)
        + (a * g + (b * h + c * k)) * (a * e - b * d) = c * det ?U"
    unfolding det_3 by (simp add: algebra_simps)
  then show "d * h - e * g = c * det ?U" unfolding r by simp
  have "(a * d + (b * e + c * f)) * (d * h - e * g) + (d * d + (e * e + f * f)) * (b * g - a * h)
        + (d * g + (e * h + f * k)) * (a * e - b * d) = f * det ?U"
    unfolding det_3 by (simp add: algebra_simps)
  then show "b * g - a * h = f * det ?U" unfolding r by simp
  have "(a * g + (b * h + c * k)) * (d * h - e * g) + (d * g + (e * h + f * k)) * (b * g - a * h)
        + (g * g + (h * h + k * k)) * (a * e - b * d) = k * det ?U"
    unfolding det_3 by (simp add: algebra_simps)
  then show "a * e - b * d = k * det ?U" unfolding r by simp
qed

lemma orthogonal_3_eq:
  assumes "orthogonal U" "orthogonal P" "nrows U = 3" "nrows P = 3"
    and "col U 0 = col P 0" "col U 1 = col P 1" "det U = det P"
  shows "U = P"
proof -
  note sU = orthogonalD(1,2)[OF assms(1,3)] and sP = orthogonalD(1,2)[OF assms(2,4)]
  from sU assms(3) obtain a b c d e f g h k where
    U: "U = \<lparr>nrows = 3, ncols = 3, rows = [[a, b, c], [d, e, f], [g, h, k]]\<rparr>"
    by (auto elim: shape_3)
  from sP assms(4) obtain a' b' c' d' e' f' g' h' k' where
    P: "P = \<lparr>nrows = 3, ncols = 3, rows = [[a', b', c'], [d', e', f'], [g', h', k']]\<rparr>"
    by (auto elim: shape_3)
  from assms(5,6) have e: "a' = a" "d' = d" "g' = g" "b' = b" "e' = e" "h' = h"
    by (simp_all add: U P col_def)
  have dU: "det U = 1 \<or> det U = - 1"
    using assms(1,3) by (rule det_orthogonal) simp
  define \<delta> where "\<delta> = det U"
  have x: "d * h - e * g = c * \<delta>" "b * g - a * h = f * \<delta>" "a * e - b * d = k * \<delta>"
    using orthogonal_3_cross[OF assms(1)[unfolded U]] by (simp_all only: \<delta>_def U)
  have y: "d * h - e * g = c' * \<delta>" "b * g - a * h = f' * \<delta>" "a * e - b * d = k' * \<delta>"
    using orthogonal_3_cross[OF assms(2)[unfolded P e]] by (simp_all only: \<delta>_def assms(7) P e)
  have "c * \<delta> = c' * \<delta>" "f * \<delta> = f' * \<delta>" "k * \<delta> = k' * \<delta>"
    using x y by auto
  moreover have "\<delta> \<noteq> 0" using dU by (auto simp: \<delta>_def)
  ultimately have "c = c'" "f = f'" "k = k'" by simp_all
  then show ?thesis by (simp add: U P e)
qed

lemma rank_one_collinear:
  assumes "well_shaped C" "ncols C = 3" "orthogonal V" "nrows V = 3"
    and "\<forall>r \<in> set (rows C). dot r (col V 1) = 0"
    and "\<forall>r \<in> set (rows C). dot r (col V 2) = 0"
  shows "all_collinear C"
proof -
  note sV = orthogonalD(1,2)[OF assms(3,4)]
  from sV assms(4) obtain a b c d e f g h k where
    V: "V = \<lparr>nrows = 3, ncols = 3, rows = [[a, b, c], [d, e, f], [g, h, k]]\<rparr>"
    by (auto elim: shape_3)
  note o = orthogonal_3_rows[OF assms(3)[unfolded V]]
  have mult: "\<exists>\<alpha>. r = [a * \<alpha>, d * \<alpha>, g * \<alpha>]" if r: "r \<in> set (rows C)" for r
  proof -
    from r assms(1,2) have "length r = 3" by (simp add: well_shaped_def)
    then obtain x y z where xyz: "r = [x, y, z]"
      by (auto simp: numeral_3_eq_3 length_Suc_conv)
    from assms(5,6) r have "dot r (col V 1) = 0" "dot r (col V 2) = 0" by blast+
    then have p: "x * b + (y * e + z * h) = 0" "x * c + (y * f + z * k) = 0"
      by (simp_all add: xyz V col_def dot_def)
    define \<alpha> where "\<alpha> = a * x + (d * y + g * z)"
    have "a * \<alpha> + b * (x * b + (y * e + z * h)) + c * (x * c + (y * f + z * k))
        = (a * a + (b * b + c * c)) * x + (a * d + (b * e + c * f)) * y + (a * g + (b * h + c * k)) * z"
      by (simp add: \<alpha>_def algebra_simps)
    then have x: "a * \<alpha> = x" unfolding p o by simp
    have "d * \<alpha> + e * (x * b + (y * e + z * h)) + f * (x * c + (y * f + z * k))
        = (a * d + (b * e + c * f)) * x + (d * d + (e * e + f * f)) * y + (d * g + (e * h + f * k)) * z"
      by (simp add: \<alpha>_def algebra_simps)
    then have y: "d * \<alpha> = y" unfolding p o by simp
    have "g * \<alpha> + h * (x * b + (y * e + z * h)) + k * (x * c + (y * f + z * k))
        = (a * g + (b * h + c * k)) * x + (d * g + (e * h + f * k)) * y + (g * g + (h * h + k * k)) * z"
      by (simp add: \<alpha>_def algebra_simps)
    then have z: "g * \<alpha> = z" unfolding p o by simp
    from x y z xyz show ?thesis by auto
  qed
  show ?thesis
    unfolding all_collinear_def
  proof (intro ballI)
    fix u v assume "u \<in> set (rows C)" "v \<in> set (rows C)"
    with mult obtain \<alpha> \<beta> where "u = [a * \<alpha>, d * \<alpha>, g * \<alpha>]" "v = [a * \<beta>, d * \<beta>, g * \<beta>]"
      by blast
    then show "collinear u v"
      by (simp add: collinear_def atLeast0_lessThan_Suc)
  qed
qed

lemma map_times_inj: "s \<noteq> (0::real) \<Longrightarrow> map ((*) s) x = map ((*) s) y \<Longrightarrow> x = y"
proof -
  assume s: "s \<noteq> 0" and e: "map ((*) s) x = map ((*) s) y"
  have "inj ((*) s)" using s by (auto simp: inj_on_def)
  with e show ?thesis by (simp add: inj_map_eq_map)
qed

lemma is_svd_sorted: "is_svd H (U, S, Vt) \<Longrightarrow> sorted (rev S)"
  by (simp add: is_svd_def)

lemma kabsch_noncollinear:
  assumes C: "well_shaped C" "ncols C = 3" "\<not> all_collinear C"
    and R0: "proper_rotation R\<^sub>0" "nrows R\<^sub>0 = 3"
    and svd: "is_svd (mm (T (rotate_rows R\<^sub>0 C)) C) (U, S, Vt)"
  shows "mm (T Vt) (T U) = T R\<^sub>0 \<or> det (mm (T Vt) (T U)) = - 1"
proof -
  define M where "M = mm (T C) C"
  define V where "V = T Vt"
  define D where "D = diag S"
  define P where "P = mm R\<^sub>0 V"
  have oR: "orthogonal R\<^sub>0" and dR: "det R\<^sub>0 = 1"
    using R0(1) by (simp_all add: proper_rotation_def)
  note sR = orthogonalD(1,2)[OF oR R0(2)]
  have sH: "nrows (mm (T (rotate_rows R\<^sub>0 C)) C) = 3" using R0(2) by simp
  have nU: "nrows U = 3" and nVt: "nrows Vt = 3"
    using is_svdD(3,5)[OF svd] sH by simp_all
  have oU: "orthogonal U" and oVt: "orthogonal Vt"
    using is_svdD(2,4)[OF svd] by simp_all
  note sU = orthogonalD(1,2)[OF oU nU] and sVt = orthogonalD[OF oVt nVt]
  have lS: "length S = 3" and S0: "\<forall>s \<in> set S. 0 \<le> s"
    using is_svdD(6,7)[OF svd] sH by simp_all
  have oV: "orthogonal V" using oVt by (simp add: V_def orthogonal_T)
  have sV: "well_shaped V" "nrows V = 3" "ncols V = 3" using sVt nVt by (simp_all add: V_def)
  have oP: "orthogonal P" unfolding P_def using oR oV R0(2) sV by (intro orthogonal_mm) simp_all
  have sP: "well_shaped P" "nrows P = 3" "ncols P = 3" using sR sV R0(2) by (simp_all add: P_def)
  have sM: "well_shaped M" "nrows M = 3" "ncols M = 3" using C by (simp_all add: M_def)
  have MVD: "mm M V = mm V D"
    using kabsch_facts(2)[OF C(1,2) oR R0(2) svd] by (simp only: M_def V_def D_def)
  have UD: "mm U D = mm P D"
    using kabsch_facts(3)[OF C(1,2) oR R0(2) svd] by (simp only: P_def V_def D_def)
  from lS obtain s0 s1 s2 where S: "S = [s0, s1, s2]"
    by (auto simp: numeral_3_eq_3 length_Suc_conv)
  have ord: "s2 \<le> s1" "s1 \<le> s0" "0 \<le> s2"
    using is_svd_sorted[OF svd] S0 by (auto simp: S)
  have pos: "0 < s1"
  proof (rule ccontr)
    assume "\<not> 0 < s1"
    with ord have z: "s1 = 0" "s2 = 0" by simp_all
    have null: "\<forall>r \<in> set (rows C). dot r (col V j) = 0" if j: "j = 1 \<or> j = 2" for j
    proof -
      have j3: "j < 3" and sj: "S ! j = 0" using j z by (auto simp: S)
      have "mv M (col V j) = col (mm M V) j" using sM sV j3 by (simp add: col_mm)
      also have "\<dots> = map ((*) 0) (col V j)"
        unfolding MVD D_def using sV lS j3 sj by (simp add: col_mm_diag)
      finally have e: "mv (mm (T C) C) (col V j) = map ((*) 0) (col V j)" by (simp only: M_def)
      have l: "length (col V j) = 3" using sV by (simp add: length_col)
      have "mv (mm (T C) C) (col V j) ! i + 0 * col V j ! i = 0" if "i < 3" for i
        using e l that by simp
      with C(1,2) l have "mv C (col V j) = replicate (length (rows C)) 0"
        by (intro gram_kernel_core(1)[where s = 0 and n = 3]) simp_all
      then show ?thesis by (rule mv_zero_rows)
    qed
    from C(1,2) oV sV(2) null[of 1] null[of 2] have "all_collinear C"
      by (intro rank_one_collinear) simp_all
    with C(3) show False by simp
  qed
  have cols: "col U j = col P j" if j: "j = 0 \<or> j = 1" for j
  proof -
    have j3: "j < length S" and sj: "S ! j \<noteq> 0" using j pos ord by (auto simp: S)
    have "map ((*) (S ! j)) (col U j) = col (mm U D) j"
      unfolding D_def using sU lS j3 by (simp add: col_mm_diag)
    also have "\<dots> = map ((*) (S ! j)) (col P j)"
      unfolding UD unfolding D_def using sP lS j3 by (simp add: col_mm_diag)
    finally show ?thesis using sj by (rule map_times_inj[rotated])
  qed
  have dU: "det U = 1 \<or> det U = - 1" using oU nU by (rule det_orthogonal) simp
  have dVt: "det Vt = 1 \<or> det Vt = - 1" using oVt nVt by (rule det_orthogonal) simp
  have dE: "det (mm (T Vt) (T U)) = det Vt * det U"
  proof -
    have "det (mm (T Vt) (T U)) = det (T Vt) * det (T U)"
      using sU sVt nU nVt by (intro det_mm[where n = 3]) simp_all
    also have "det (T Vt) = det Vt" using sVt nVt by (intro det_T[where n = 3]) simp_all
    also have "det (T U) = det U" using sU nU by (intro det_T[where n = 3]) simp_all
    finally show ?thesis .
  qed
  have dP: "det P = det Vt"
  proof -
    have "det P = det R\<^sub>0 * det V"
      unfolding P_def using sR sV R0(2) by (intro det_mm[where n = 3]) simp_all
    also have "det V = det Vt" unfolding V_def using sVt nVt by (intro det_T[where n = 3]) simp_all
    finally show ?thesis using dR by simp
  qed
  show ?thesis
  proof (cases "det U = det Vt")
    case True
    with dP have "det U = det P" by simp
    with oU oP nU sP(2) cols[of 0] cols[of 1] have "U = P"
      by (intro orthogonal_3_eq) simp_all
    then have "mm U Vt = mm (mm R\<^sub>0 V) Vt" by (simp add: P_def)
    also have "\<dots> = R\<^sub>0"
      using sR sV sVt R0(2) by (intro mm_cancel_right) (simp_all add: V_def)
    finally have "T (mm U Vt) = T R\<^sub>0" by simp
    moreover have "T (mm U Vt) = mm (T Vt) (T U)" using sU sVt nVt by (simp add: T_mm)
    ultimately show ?thesis by simp
  next
    case False
    with dU dVt dE show ?thesis by auto
  qed
qed

section \<open>What the solve returns\<close>

text \<open>
  For two arrays of three-component vectors with one reference per observation,
  and every decomposition of the cross-covariance within numpy's contract: the
  matrix \<open>R_est = Vt.T @ U.T\<close> is orthogonal, its determinant is that of the
  uncorrected product \<open>U Vt\<close>, and \<open>R.from_matrix\<close> returns it unchanged when the
  determinant is \<open>+1\<close> and hands it to scipy's treatment of improper matrices
  when it is \<open>-1\<close>.
\<close>

lemmas solve_eval = array_eval solve_attitude_def from_matrix_def proper_rotation_def det_def
  improper_raises_def improper_returning_def

lemma solve_attitude_cases:
  assumes "nrows observed = nrows catalog" "ncols observed = 3" "ncols catalog = 3"
    and "svd (mm (T observed) catalog) = (U, S, Vt)"
    and "is_svd (mm (T observed) catalog) (U, S, Vt)"
  shows "r_est svd observed catalog = Inr (mm (T Vt) (T U))"
    and "orthogonal (mm (T Vt) (T U))"
    and "det (mm (T Vt) (T U)) = 1 \<or> det (mm (T Vt) (T U)) = - 1"
    and "det (mm (T Vt) (T U)) = det (mm U Vt)"
    and "det (mm (T Vt) (T U)) * prod_list S = det (mm (T observed) catalog)"
    and "solve_attitude svd improper observed catalog = from_matrix improper (mm (T Vt) (T U))"
    and "det (mm (T Vt) (T U)) = 1 \<Longrightarrow>
           solve_attitude svd improper observed catalog = Inr (mm (T Vt) (T U))"
    and "det (mm (T Vt) (T U)) = - 1 \<Longrightarrow>
           solve_attitude svd improper observed catalog = improper (mm (T Vt) (T U))"
proof -
  let ?H = "mm (T observed) catalog" and ?R = "mm (T Vt) (T U)"
  have n: "nrows ?H = 3"
    using assms(2) by simp
  have nU: "nrows U = 3" and nVt: "nrows Vt = 3"
    using is_svdD(3,5)[OF assms(5)] n by simp_all
  have oU: "orthogonal U" and oVt: "orthogonal Vt"
    using is_svdD(2,4)[OF assms(5)] by simp_all
  note sU = orthogonalD(1,2)[OF oU nU] and sVt = orthogonalD(1,2)[OF oVt nVt]
  have S: "length S = 3" and H: "mm (mm U (diag S)) Vt = ?H"
    using is_svdD(6,8)[OF assms(5)] n by simp_all
  show R: "r_est svd observed catalog = Inr ?R"
    using assms(1,4,5) by (rule r_est_value)
  show oR: "orthogonal ?R"
    using oU oVt nU nVt sU sVt by (intro orthogonal_mm orthogonal_T) simp_all
  have sR: "nrows ?R = 3" "ncols ?R = 3" using sVt nU by simp_all
  show "det ?R = 1 \<or> det ?R = - 1"
    using oR sR(1) by (rule det_orthogonal) simp
  have dR: "det ?R = det Vt * det U"
  proof -
    have "det ?R = det (T Vt) * det (T U)"
      using sU sVt nU nVt by (intro det_mm[where n = 3]) simp_all
    also have "det (T Vt) = det Vt" using sVt nVt by (intro det_T[where n = 3]) simp_all
    also have "det (T U) = det U" using sU nU by (intro det_T[where n = 3]) simp_all
    finally show ?thesis .
  qed
  have dUV: "det (mm U Vt) = det U * det Vt"
    using sU sVt nU nVt by (intro det_mm[where n = 3]) simp_all
  show "det ?R = det (mm U Vt)"
    using dR dUV by simp
  have dH: "det ?H = det U * prod_list S * det Vt"
  proof -
    have "det (mm (mm U (diag S)) Vt) = det (mm U (diag S)) * det Vt"
      using sU sVt nU nVt S by (intro det_mm[where n = 3]) simp_all
    also have "det (mm U (diag S)) = det U * det (diag S)"
      using sU nU S by (intro det_mm[where n = 3]) simp_all
    finally show ?thesis using H S by (simp add: det_diag)
  qed
  show "det ?R * prod_list S = det ?H"
    using dR dH by simp
  show "solve_attitude svd improper observed catalog = from_matrix improper ?R"
    using R by (simp add: solve_attitude_def)
  show "solve_attitude svd improper observed catalog = Inr ?R" if "det ?R = 1"
    using that R oR sR by (simp add: solve_attitude_def from_matrix_def proper_rotation_def)
  show "solve_attitude svd improper observed catalog = improper ?R" if "det ?R = - 1"
    using that R sR by (simp add: solve_attitude_def from_matrix_def proper_rotation_def)
qed

lemma not_all_collinear_axes: "\<not> all_collinear (array [[1, 0, 0], [0, 1, 0], [0, 0, 1]])"
  by (simp add: all_collinear_def collinear_def array_def atLeast0_lessThan_Suc)

lemma valid_input_axes:
  "valid_input 3 (array [[1, 0, 0], [0, 1, 0], [0, 0, 1]]) (array [[1, 0, 0], [0, 1, 0], [0, 0, 1]])"
  using not_all_collinear_axes
  by (simp add: valid_input_def unit_rows_def vnorm_def) (simp add: array_def well_shaped_def)

lemma valid_input_mirrored:
  "valid_input 3 (array [[1, 0, 0], [0, 1, 0], [0, 0, - 1]]) (array [[1, 0, 0], [0, 1, 0], [0, 0, 1]])"
  using not_all_collinear_axes
  by (simp add: valid_input_def unit_rows_def vnorm_def) (simp add: array_def well_shaped_def)

section \<open>The solve on rotated three-dimensional catalogs\<close>

lemma proper_rotation_T:
  assumes "proper_rotation R\<^sub>0" "nrows R\<^sub>0 = 3"
  shows "proper_rotation (T R\<^sub>0)"
proof -
  have o: "orthogonal R\<^sub>0" and d: "det R\<^sub>0 = 1"
    using assms(1) by (simp_all add: proper_rotation_def)
  note R = orthogonalD(1,2)[OF o assms(2)]
  have "det (T R\<^sub>0) = det R\<^sub>0"
    using R assms(2) by (intro det_T[where n = 3]) simp_all
  with d orthogonal_T[OF o] show ?thesis
    by (simp add: proper_rotation_def)
qed


lemma rot_applyD:
  assumes "rot_apply R\<^sub>0 A = Inr B"
  shows "ncols A = 3" "B = rotate_rows R\<^sub>0 A"
  using assms by (simp_all add: rot_apply_def split: if_splits)

lemma proper_quarter_turn: "proper_rotation (array [[0, - 1, 0], [1, 0, 0], [0, 0, 1]])"
  by (simp add: proper_rotation_def det_def array_eval del: map_eq_conv)

section \<open>Orthogonality of the computed matrix\<close>

text \<open>
  Claim C9 says that the matrix \<open>Vt.T @ U.T\<close> returned by the solve is orthogonal
  for every input whose cross-covariance has a decomposition, whatever the sign of
  its determinant. The solve does not return that matrix for every such input: its
  last line passes it to \<open>R.from_matrix\<close>. Counterexample: the planar quarter turn
  over the two coordinate axes. The cross-covariance is orthogonal, so every
  decomposition gives the same \<open>R_est\<close>, a 2 by 2 rotation; \<open>R.from_matrix\<close>
  raises ValueError on it, whatever scipy does with improper matrices.
\<close>

theorem returned_matrix_counterexample:
  "cross_covariance (array [[0, 1], [- 1, 0]]) (array [[1, 0], [0, 1]]) = Inr (array [[0, - 1], [1, 0]])
   \<and> is_svd (array [[0, - 1], [1, 0]]) (array [[0, - 1], [1, 0]], [1, 1], array [[1, 0], [0, 1]])
   \<and> r_est (svd_returning (array [[0, - 1], [1, 0]], [1, 1], array [[1, 0], [0, 1]]))
        (array [[0, 1], [- 1, 0]]) (array [[1, 0], [0, 1]]) = Inr (array [[0, 1], [- 1, 0]])
   \<and> solve_attitude (svd_returning (array [[0, - 1], [1, 0]], [1, 1], array [[1, 0], [0, 1]])) improper_raises
        (array [[0, 1], [- 1, 0]]) (array [[1, 0], [0, 1]]) = Inl ValueError
   \<and> solve_attitude (svd_returning (array [[0, - 1], [1, 0]], [1, 1], array [[1, 0], [0, 1]]))
        (improper_returning (eye 3))
        (array [[0, 1], [- 1, 0]]) (array [[1, 0], [0, 1]]) = Inl ValueError"
  by (simp add: solve_eval del: map_eq_conv)

text \<open>
  Claim C9 as amended. For every input whose cross-covariance \<open>H\<close> has a
  decomposition within numpy's contract, in every dimension and whatever the sign
  of the determinant, the matrix \<open>R_est = Vt.T @ U.T\<close> that the solve computes
  and passes to \<open>R.from_matrix\<close> satisfies \<open>R\<^sup>T R = I\<close> and is orthogonal. It
  is the rotation the solve returns when it is 3 by 3 with determinant \<open>+1\<close>.
\<close>

theorem r_est_orthogonal:
  assumes "cross_covariance observed catalog = Inr H"
    and "svd H = (U, S, Vt)" "is_svd H (U, S, Vt)"
  shows "r_est svd observed catalog = Inr (mm (T Vt) (T U))
         \<and> mm (T (mm (T Vt) (T U))) (mm (T Vt) (T U)) = eye (nrows H)
         \<and> orthogonal (mm (T Vt) (T U))
         \<and> (nrows H = 3 \<and> det (mm (T Vt) (T U)) = 1 \<longrightarrow>
              solve_attitude svd improper observed catalog = Inr (mm (T Vt) (T U)))"
proof -
  let ?R = "mm (T Vt) (T U)"
  have U: "orthogonal U" "nrows U = nrows H" and Vt: "orthogonal Vt" "nrows Vt = nrows H"
    using assms(3) by (simp_all add: is_svd_def)
  have sq: "ncols U = nrows H" "ncols Vt = nrows H"
    using U Vt by (simp_all add: orthogonal_def)
  have o: "orthogonal ?R"
    using U Vt sq by (intro orthogonal_mm orthogonal_T) simp_all
  have r: "r_est svd observed catalog = Inr ?R"
    using assms(1,2) sq U Vt by (simp add: r_est_def matmul_def)
  have e: "mm (T ?R) ?R = eye (nrows H)"
    using orthogonalD(3)[OF o, of "nrows H"] sq by simp
  have "solve_attitude svd improper observed catalog = Inr ?R"
    if "nrows H = 3" "det ?R = 1"
    using that r o sq U(2) Vt(2) by (simp add: solve_attitude_def from_matrix_def proper_rotation_def)
  with r e o show ?thesis by simp
qed

theorem r_est_orthogonal_witness:
  "cross_covariance (array [[0, 1, 0], [- 1, 0, 0], [0, 0, 1]]) (array [[1, 0, 0], [0, 1, 0], [0, 0, 1]])
     = Inr (array [[0, - 1, 0], [1, 0, 0], [0, 0, 1]])
   \<and> is_svd (array [[0, - 1, 0], [1, 0, 0], [0, 0, 1]])
        (array [[0, - 1, 0], [1, 0, 0], [0, 0, 1]], [1, 1, 1], array [[1, 0, 0], [0, 1, 0], [0, 0, 1]])
   \<and> det (array [[0, 1, 0], [- 1, 0, 0], [0, 0, 1]]) = 1
   \<and> orthogonal (array [[0, 1, 0], [- 1, 0, 0], [0, 0, 1]])
   \<and> solve_attitude
        (svd_returning
          (array [[0, - 1, 0], [1, 0, 0], [0, 0, 1]], [1, 1, 1], array [[1, 0, 0], [0, 1, 0], [0, 0, 1]]))
        improper_raises
        (array [[0, 1, 0], [- 1, 0, 0], [0, 0, 1]]) (array [[1, 0, 0], [0, 1, 0], [0, 0, 1]])
       = Inr (array [[0, 1, 0], [- 1, 0, 0], [0, 0, 1]])"
proof -
  let ?obs = "array [[0, 1, 0], [- 1, 0, 0], [0, 0, 1]]"
  let ?cat = "array [[1, 0, 0], [0, 1, 0], [0, 0, 1]]"
  let ?H = "array [[0, - 1, 0], [1, 0, 0], [0, 0, 1]]"
  let ?r = "(?H, [1, 1, 1], ?cat)"
  have h: "cross_covariance ?obs ?cat = Inr ?H"
    by (simp add: array_eval del: map_eq_conv)
  have s: "svd_returning ?r ?H = ?r" by (simp add: svd_returning_def)
  have i: "is_svd ?H ?r" by (simp add: array_eval del: map_eq_conv)
  have m: "mm (T ?cat) (T ?H) = ?obs" by (simp add: array_eval del: map_eq_conv)
  have d: "det ?obs = 1" "nrows ?H = 3" by (simp_all add: array_def det_3)
  from r_est_orthogonal[where svd = "svd_returning ?r" and improper = improper_raises, OF h s i]
    h i m d
  show ?thesis by simp
qed

section \<open>No sign correction\<close>

text \<open>
  Claim C1 says that for every valid input the solve returns a proper rotation
  because it applies the \<open>sign(det)\<close> correction. The source applies none.
  Counterexample: the references are the three coordinate axes and the third
  observation is mirrored. The cross-covariance is \<open>diag(1, 1, -1)\<close>, which is
  orthogonal, so every decomposition gives \<open>R_est = diag(1, 1, -1)\<close>, of
  determinant \<open>-1\<close>. \<open>R.from_matrix\<close> then raises, or returns a rotation of its
  own choosing such as \<open>diag(1, -1, -1)\<close>; the corrected product
  \<open>U diag(1, 1, d) Vt\<close> of the specification is the identity here.
\<close>

theorem sign_correction_counterexample:
  "valid_input 3 (array [[1, 0, 0], [0, 1, 0], [0, 0, - 1]]) (array [[1, 0, 0], [0, 1, 0], [0, 0, 1]])
   \<and> cross_covariance (array [[1, 0, 0], [0, 1, 0], [0, 0, - 1]]) (array [[1, 0, 0], [0, 1, 0], [0, 0, 1]])
       = Inr (array [[1, 0, 0], [0, 1, 0], [0, 0, - 1]])
   \<and> is_svd (array [[1, 0, 0], [0, 1, 0], [0, 0, - 1]])
        (array [[1, 0, 0], [0, 1, 0], [0, 0, 1]], [1, 1, 1], array [[1, 0, 0], [0, 1, 0], [0, 0, - 1]])
   \<and> r_est
        (svd_returning
          (array [[1, 0, 0], [0, 1, 0], [0, 0, 1]], [1, 1, 1], array [[1, 0, 0], [0, 1, 0], [0, 0, - 1]]))
        (array [[1, 0, 0], [0, 1, 0], [0, 0, - 1]]) (array [[1, 0, 0], [0, 1, 0], [0, 0, 1]])
       = Inr (array [[1, 0, 0], [0, 1, 0], [0, 0, - 1]])
   \<and> det (array [[1, 0, 0], [0, 1, 0], [0, 0, - 1]]) = - 1
   \<and> solve_attitude
        (svd_returning
          (array [[1, 0, 0], [0, 1, 0], [0, 0, 1]], [1, 1, 1], array [[1, 0, 0], [0, 1, 0], [0, 0, - 1]]))
        improper_raises
        (array [[1, 0, 0], [0, 1, 0], [0, 0, - 1]]) (array [[1, 0, 0], [0, 1, 0], [0, 0, 1]])
       = Inl ValueError
   \<and> solve_attitude
        (svd_returning
          (array [[1, 0, 0], [0, 1, 0], [0, 0, 1]], [1, 1, 1], array [[1, 0, 0], [0, 1, 0], [0, 0, - 1]]))
        (improper_returning (array [[1, 0, 0], [0, - 1, 0], [0, 0, - 1]]))
        (array [[1, 0, 0], [0, 1, 0], [0, 0, - 1]]) (array [[1, 0, 0], [0, 1, 0], [0, 0, 1]])
       = Inr (array [[1, 0, 0], [0, - 1, 0], [0, 0, - 1]])
   \<and> sign_corrected (array [[1, 0, 0], [0, 1, 0], [0, 0, 1]]) (array [[1, 0, 0], [0, 1, 0], [0, 0, - 1]])
       = array [[1, 0, 0], [0, 1, 0], [0, 0, 1]]
   \<and> array [[1, 0, 0], [0, - 1, 0], [0, 0, - 1]] \<noteq> array [[1, 0, 0], [0, 1, 0], [0, 0, 1]]"
proof -
  have d: "det (array [[1, 0, 0], [0, 1, 0], [0, 0, - 1]]) = - 1"
    by (simp add: array_def det_3)
  have c: "sign_corrected (array [[1, 0, 0], [0, 1, 0], [0, 0, 1]]) (array [[1, 0, 0], [0, 1, 0], [0, 0, - 1]])
       = array [[1, 0, 0], [0, 1, 0], [0, 0, 1]]"
    by (simp add: sign_corrected_def det_def array_eval del: map_eq_conv)
  show ?thesis
    apply (intro conjI)
    using valid_input_mirrored d c by (simp_all add: solve_eval del: map_eq_conv)
qed

text \<open>
  Claim C1 as amended. For every valid three-dimensional input and every
  decomposition within numpy's contract, the solve applies no sign correction: the
  matrix \<open>R_est = Vt.T @ U.T\<close> is orthogonal, and its determinant, \<open>+1\<close> or
  \<open>-1\<close>, is that of the uncorrected product \<open>U Vt\<close>; multiplied by the singular
  values it is the determinant of the cross-covariance. When the determinant is
  \<open>+1\<close> the solve returns \<open>R_est\<close>. When it is \<open>-1\<close> the result is whatever
  \<open>R.from_matrix\<close> makes of an improper matrix. Whatever the solve returns is a
  proper rotation, provided scipy returns only rotations.
\<close>

theorem solve_attitude_no_sign_correction:
  assumes "valid_input 3 observed catalog"
    and "svd (mm (T observed) catalog) = (U, S, Vt)"
    and "is_svd (mm (T observed) catalog) (U, S, Vt)"
  shows "r_est svd observed catalog = Inr (mm (T Vt) (T U))
         \<and> orthogonal (mm (T Vt) (T U))
         \<and> (det (mm (T Vt) (T U)) = 1 \<or> det (mm (T Vt) (T U)) = - 1)
         \<and> det (mm (T Vt) (T U)) = det (mm U Vt)
         \<and> det (mm (T Vt) (T U)) * prod_list S = det (mm (T observed) catalog)
         \<and> (det (mm (T Vt) (T U)) = 1 \<longrightarrow>
              solve_attitude svd improper observed catalog = Inr (mm (T Vt) (T U)))
         \<and> (det (mm (T Vt) (T U)) = - 1 \<longrightarrow>
              solve_attitude svd improper observed catalog = improper (mm (T Vt) (T U)))
         \<and> (gives_rotations improper \<longrightarrow>
              (\<forall>Q. solve_attitude svd improper observed catalog = Inr Q \<longrightarrow> proper_rotation Q))"
proof -
  let ?R = "mm (T Vt) (T U)"
  have n: "nrows observed = nrows catalog" "ncols observed = 3" "ncols catalog = 3"
    using assms(1) by (simp_all add: valid_input_def)
  note c = solve_attitude_cases[where svd = svd, OF n assms(2,3)]
  have "proper_rotation Q"
    if "gives_rotations improper" "solve_attitude svd improper observed catalog = Inr Q" for Q
    using from_matrix_rotation[OF that(1), of ?R Q] that(2) c(6)[of improper] by simp
  with c(1-5) c(7,8)[of improper] show ?thesis by blast
qed

theorem solve_attitude_no_sign_correction_witness:
  "valid_input 3 (array [[1, 0, 0], [0, 1, 0], [0, 0, - 1]]) (array [[1, 0, 0], [0, 1, 0], [0, 0, 1]])
   \<and> is_svd (mm (T (array [[1, 0, 0], [0, 1, 0], [0, 0, - 1]])) (array [[1, 0, 0], [0, 1, 0], [0, 0, 1]]))
        (array [[1, 0, 0], [0, 1, 0], [0, 0, 1]], [1, 1, 1], array [[1, 0, 0], [0, 1, 0], [0, 0, - 1]])
   \<and> gives_rotations (improper_returning (array [[1, 0, 0], [0, - 1, 0], [0, 0, - 1]]))
   \<and> det (array [[1, 0, 0], [0, 1, 0], [0, 0, - 1]]) = - 1
   \<and> solve_attitude
        (svd_returning
          (array [[1, 0, 0], [0, 1, 0], [0, 0, 1]], [1, 1, 1], array [[1, 0, 0], [0, 1, 0], [0, 0, - 1]]))
        (improper_returning (array [[1, 0, 0], [0, - 1, 0], [0, 0, - 1]]))
        (array [[1, 0, 0], [0, 1, 0], [0, 0, - 1]]) (array [[1, 0, 0], [0, 1, 0], [0, 0, 1]])
       = Inr (array [[1, 0, 0], [0, - 1, 0], [0, 0, - 1]])
   \<and> proper_rotation (array [[1, 0, 0], [0, - 1, 0], [0, 0, - 1]])
   \<and> valid_input 3 (array [[1, 0, 0], [0, 1, 0], [0, 0, 1]]) (array [[1, 0, 0], [0, 1, 0], [0, 0, 1]])
   \<and> is_svd (mm (T (array [[1, 0, 0], [0, 1, 0], [0, 0, 1]])) (array [[1, 0, 0], [0, 1, 0], [0, 0, 1]]))
        (array [[1, 0, 0], [0, 1, 0], [0, 0, 1]], [1, 1, 1], array [[1, 0, 0], [0, 1, 0], [0, 0, 1]])
   \<and> det (array [[1, 0, 0], [0, 1, 0], [0, 0, 1]]) = 1
   \<and> solve_attitude
        (svd_returning
          (array [[1, 0, 0], [0, 1, 0], [0, 0, 1]], [1, 1, 1], array [[1, 0, 0], [0, 1, 0], [0, 0, 1]]))
        improper_raises
        (array [[1, 0, 0], [0, 1, 0], [0, 0, 1]]) (array [[1, 0, 0], [0, 1, 0], [0, 0, 1]])
       = Inr (array [[1, 0, 0], [0, 1, 0], [0, 0, 1]])"
proof -
  let ?mir = "array [[1, 0, 0], [0, 1, 0], [0, 0, - 1]]"
  let ?axes = "array [[1, 0, 0], [0, 1, 0], [0, 0, 1]]"
  let ?Q = "array [[1, 0, 0], [0, - 1, 0], [0, 0, - 1]]"
  let ?r = "(?axes, [1, 1, 1], ?mir)"
  let ?r' = "(?axes, [1, 1, 1], ?axes)"
  note v = valid_input_mirrored and v' = valid_input_axes
  have h: "mm (T ?mir) ?axes = ?mir" "mm (T ?axes) ?axes = ?axes"
    by (simp_all add: array_eval del: map_eq_conv)
  have s: "svd_returning ?r (mm (T ?mir) ?axes) = ?r" "svd_returning ?r' (mm (T ?axes) ?axes) = ?r'"
    by (simp_all add: svd_returning_def)
  have i: "is_svd (mm (T ?mir) ?axes) ?r" "is_svd (mm (T ?axes) ?axes) ?r'"
    by (simp_all add: array_eval del: map_eq_conv)
  have m: "mm (T ?mir) (T ?axes) = ?mir" "mm (T ?axes) (T ?axes) = ?axes"
    by (simp_all add: array_eval del: map_eq_conv)
  have d: "det ?mir = - 1" "det ?axes = 1" "det ?Q = 1"
    by (simp_all add: array_def det_3)
  have p: "proper_rotation ?Q"
    using d(3) by (simp add: proper_rotation_def) (simp add: array_eval del: map_eq_conv)
  then have g: "gives_rotations (improper_returning ?Q)"
    by (simp add: gives_rotations_def improper_returning_def) (simp add: array_def)
  from solve_attitude_no_sign_correction
         [where svd = "svd_returning ?r" and improper = "improper_returning ?Q", OF v s(1) i(1)]
       solve_attitude_no_sign_correction
         [where svd = "svd_returning ?r'" and improper = improper_raises, OF v' s(2) i(2)]
       v v' i m d p g
  show ?thesis by (simp add: improper_returning_def)
qed

section \<open>No validation\<close>

text \<open>
  Claim C4 says that an input with a vector of magnitude below \<open>\<epsilon>\<close> makes the
  solve fail with InvalidInputError before any numerical work. The source checks
  nothing. Counterexample: four pairs of three-component vectors whose last
  observation has magnitude zero. The cross-covariance is the identity, so every
  decomposition gives \<open>R_est = I\<close>, and the solve returns the identity rotation.
\<close>

theorem validation_counterexample:
  "vnorm [0, 0, 0] = 0
   \<and> cross_covariance (array [[1, 0, 0], [0, 1, 0], [0, 0, 1], [0, 0, 0]])
        (array [[1, 0, 0], [0, 1, 0], [0, 0, 1], [1, 0, 0]])
       = Inr (array [[1, 0, 0], [0, 1, 0], [0, 0, 1]])
   \<and> is_svd (array [[1, 0, 0], [0, 1, 0], [0, 0, 1]])
        (array [[1, 0, 0], [0, 1, 0], [0, 0, 1]], [1, 1, 1], array [[1, 0, 0], [0, 1, 0], [0, 0, 1]])
   \<and> r_est
        (svd_returning
          (array [[1, 0, 0], [0, 1, 0], [0, 0, 1]], [1, 1, 1], array [[1, 0, 0], [0, 1, 0], [0, 0, 1]]))
        (array [[1, 0, 0], [0, 1, 0], [0, 0, 1], [0, 0, 0]])
        (array [[1, 0, 0], [0, 1, 0], [0, 0, 1], [1, 0, 0]])
       = Inr (array [[1, 0, 0], [0, 1, 0], [0, 0, 1]])
   \<and> solve_attitude
        (svd_returning
          (array [[1, 0, 0], [0, 1, 0], [0, 0, 1]], [1, 1, 1], array [[1, 0, 0], [0, 1, 0], [0, 0, 1]]))
        improper_raises
        (array [[1, 0, 0], [0, 1, 0], [0, 0, 1], [0, 0, 0]])
        (array [[1, 0, 0], [0, 1, 0], [0, 0, 1], [1, 0, 0]])
       = Inr (array [[1, 0, 0], [0, 1, 0], [0, 0, 1]])"
proof -
  have "vnorm [0, 0, 0] = 0" by (simp add: vnorm_def)
  then show ?thesis
    by (simp add: solve_eval del: map_eq_conv)
qed

text \<open>
  Claim C4 as amended. The solve validates nothing and raises neither
  InvalidInputError nor DegenerateGeometryError. For every pair of arrays of
  three-component vectors with the same number of rows, also when a vector has
  magnitude below \<open>\<epsilon>\<close> or all references are collinear, it takes the
  decomposition of the cross-covariance, forms \<open>R_est = Vt.T @ U.T\<close> and gives
  it to \<open>R.from_matrix\<close>; that returns \<open>R_est\<close> itself when its determinant is
  \<open>+1\<close>. Arrays with different numbers of rows make numpy raise ValueError.
\<close>

theorem solve_attitude_no_validation:
  "(nrows observed = nrows catalog \<and> ncols observed = 3 \<and> ncols catalog = 3 \<and>
    svd (mm (T observed) catalog) = (U, S, Vt) \<and>
    is_svd (mm (T observed) catalog) (U, S, Vt) \<longrightarrow>
      cross_covariance observed catalog = Inr (mm (T observed) catalog) \<and>
      r_est svd observed catalog = Inr (mm (T Vt) (T U)) \<and>
      solve_attitude svd improper observed catalog = from_matrix improper (mm (T Vt) (T U)) \<and>
      (det (mm (T Vt) (T U)) = 1 \<longrightarrow>
         solve_attitude svd improper observed catalog = Inr (mm (T Vt) (T U))))
   \<and> (nrows observed \<noteq> nrows catalog \<longrightarrow>
        solve_attitude svd improper observed catalog = Inl ValueError)"
proof (intro conjI impI)
  assume a: "nrows observed = nrows catalog \<and> ncols observed = 3 \<and> ncols catalog = 3 \<and>
    svd (mm (T observed) catalog) = (U, S, Vt) \<and>
    is_svd (mm (T observed) catalog) (U, S, Vt)"
  then have n: "nrows observed = nrows catalog" "ncols observed = 3" "ncols catalog = 3"
    and s: "svd (mm (T observed) catalog) = (U, S, Vt)"
    and i: "is_svd (mm (T observed) catalog) (U, S, Vt)"
    by simp_all
  note c = solve_attitude_cases[where svd = svd, OF n s i]
  show "cross_covariance observed catalog = Inr (mm (T observed) catalog)"
    using n(1) by (simp add: cross_covariance_def matmul_def)
  show "r_est svd observed catalog = Inr (mm (T Vt) (T U))"
    by (rule c(1))
  show "solve_attitude svd improper observed catalog = from_matrix improper (mm (T Vt) (T U))"
    by (rule c(6))
  show "solve_attitude svd improper observed catalog = Inr (mm (T Vt) (T U))"
    if "det (mm (T Vt) (T U)) = 1"
    using that by (rule c(7))
next
  assume "nrows observed \<noteq> nrows catalog"
  then show "solve_attitude svd improper observed catalog = Inl ValueError"
    by (simp add: solve_attitude_def r_est_def cross_covariance_def matmul_def)
qed

theorem solve_attitude_no_validation_witness:
  "all_collinear (array [[1, 0, 0], [1, 0, 0], [1, 0, 0]])
   \<and> is_svd (mm (T (array [[1, 0, 0], [1, 0, 0], [1, 0, 0]])) (array [[1, 0, 0], [1, 0, 0], [1, 0, 0]]))
        (array [[1, 0, 0], [0, 1, 0], [0, 0, 1]], [3, 0, 0], array [[1, 0, 0], [0, 1, 0], [0, 0, 1]])
   \<and> det (array [[1, 0, 0], [0, 1, 0], [0, 0, 1]]) = 1
   \<and> solve_attitude
        (svd_returning
          (array [[1, 0, 0], [0, 1, 0], [0, 0, 1]], [3, 0, 0], array [[1, 0, 0], [0, 1, 0], [0, 0, 1]]))
        improper_raises
        (array [[1, 0, 0], [1, 0, 0], [1, 0, 0]]) (array [[1, 0, 0], [1, 0, 0], [1, 0, 0]])
       = Inr (array [[1, 0, 0], [0, 1, 0], [0, 0, 1]])
   \<and> solve_attitude
        (svd_returning
          (array [[1, 0, 0], [0, 1, 0], [0, 0, 1]], [3, 0, 0], array [[1, 0, 0], [0, 1, 0], [0, 0, 1]]))
        improper_raises
        (array [[1, 0, 0], [1, 0, 0], [1, 0, 0]]) (array [[1, 0, 0], [1, 0, 0]])
       = Inl ValueError"
proof -
  let ?c = "array [[1, 0, 0], [1, 0, 0], [1, 0, 0]]"
  let ?c2 = "array [[1, 0, 0], [1, 0, 0]]"
  let ?I = "array [[1, 0, 0], [0, 1, 0], [0, 0, 1]]"
  let ?r = "(?I, [3, 0, 0], ?I)"
  have a: "all_collinear ?c"
    by (simp add: all_collinear_def collinear_def array_def)
  have n: "nrows ?c = nrows ?c" "ncols ?c = 3" "nrows ?c \<noteq> nrows ?c2"
    by (simp_all add: array_def)
  have s: "svd_returning ?r (mm (T ?c) ?c) = ?r"
    by (simp add: svd_returning_def)
  have i: "is_svd (mm (T ?c) ?c) ?r"
    by (simp add: array_eval del: map_eq_conv)
  have m: "mm (T ?I) (T ?I) = ?I"
    by (simp add: array_eval del: map_eq_conv)
  have d: "det ?I = 1"
    by (simp add: array_def det_3)
  from solve_attitude_no_validation
         [where svd = "svd_returning ?r" and improper = improper_raises and observed = ?c
            and catalog = ?c and U = ?I and S = "[3, 0, 0]" and Vt = ?I]
       solve_attitude_no_validation
         [where svd = "svd_returning ?r" and improper = improper_raises and observed = ?c
            and catalog = ?c2 and U = ?I and S = "[3, 0, 0]" and Vt = ?I]
       a n s i m d
  show ?thesis by metis
qed

section \<open>The solve returns the inverse rotation\<close>



section \<open>Identity\<close>



section \<open>Round trip\<close>

text \<open>
  When a singular value is zero the contract of the decomposition does not fix the
  factors. For the coplanar catalog \<open>(1, 0, 0)\<close>, \<open>(0, 1, 0)\<close>,
  \<open>(3/5, 4/5, 0)\<close> observed without rotation, the factors may mirror the
  direction orthogonal to the plane; \<open>R_est\<close> is then a reflection, which
  \<open>R.from_matrix\<close> does not return.
\<close>

lemma coplanar_catalog_reflection:
  "valid_input 3 (array [[1, 0, 0], [0, 1, 0], [3/5, 4/5, 0]]) (array [[1, 0, 0], [0, 1, 0], [3/5, 4/5, 0]])
   \<and> \<not> spans 3 (array [[1, 0, 0], [0, 1, 0], [3/5, 4/5, 0]])
   \<and> is_svd (mm (T (array [[1, 0, 0], [0, 1, 0], [3/5, 4/5, 0]])) (array [[1, 0, 0], [0, 1, 0], [3/5, 4/5, 0]]))
        (array [[3/5, - 4/5, 0], [4/5, 3/5, 0], [0, 0, - 1]], [2, 1, 0],
         array [[3/5, 4/5, 0], [- 4/5, 3/5, 0], [0, 0, 1]])
   \<and> r_est
        (svd_returning
          (array [[3/5, - 4/5, 0], [4/5, 3/5, 0], [0, 0, - 1]], [2, 1, 0],
           array [[3/5, 4/5, 0], [- 4/5, 3/5, 0], [0, 0, 1]]))
        (array [[1, 0, 0], [0, 1, 0], [3/5, 4/5, 0]]) (array [[1, 0, 0], [0, 1, 0], [3/5, 4/5, 0]])
       = Inr (array [[1, 0, 0], [0, 1, 0], [0, 0, - 1]])
   \<and> det (array [[1, 0, 0], [0, 1, 0], [0, 0, - 1]]) = - 1"
proof -
  let ?c = "array [[1, 0, 0], [0, 1, 0], [3/5, 4/5, 0]]"
  have nc: "\<not> all_collinear ?c"
    by (simp add: all_collinear_def collinear_def array_def atLeast0_lessThan_Suc)
  have u: "vnorm [3/5, 4/5, 0] = 1"
    by (simp add: vnorm_def power2_eq_square)
  have v: "valid_input 3 ?c ?c"
    using nc u
    by (simp add: valid_input_def unit_rows_def) (simp add: array_def well_shaped_def vnorm_def)
  have ns: "\<not> spans 3 ?c"
  proof
    assume "spans 3 ?c"
    then have "length [0, 0, 1 :: real] = 3 \<and> (\<forall>c \<in> set (rows ?c). dot c [0, 0, 1] = 0)
        \<longrightarrow> [0, 0, 1 :: real] = replicate 3 0"
      unfolding spans_def by blast
    then show False
      by (simp add: array_def dot_def numeral_3_eq_3)
  qed
  have d: "det (array [[1, 0, 0], [0, 1, 0], [0, 0, - 1]]) = - 1"
    by (simp add: array_def det_3)
  show ?thesis
    apply (intro conjI)
    using v ns d by (simp_all add: array_eval del: map_eq_conv)
qed

text \<open>
  Claim C2 says that the solve recovers the rotation \<open>R\<^sub>0\<close> that produced the
  observations. Counterexample: the catalog is the three coordinate axes and
  \<open>R\<^sub>0\<close> the quarter turn about z. The cross-covariance is orthogonal, so every
  decomposition gives the same \<open>R_est\<close>, and the solve returns the quarter turn
  the other way, at an angle \<open>\<pi>\<close> from \<open>R\<^sub>0\<close>.
\<close>

theorem recovery_counterexample:
  "valid_input 3 (array [[0, 1, 0], [- 1, 0, 0], [0, 0, 1]]) (array [[1, 0, 0], [0, 1, 0], [0, 0, 1]])
   \<and> proper_rotation (array [[0, - 1, 0], [1, 0, 0], [0, 0, 1]])
   \<and> rot_apply (array [[0, - 1, 0], [1, 0, 0], [0, 0, 1]]) (array [[1, 0, 0], [0, 1, 0], [0, 0, 1]])
       = Inr (array [[0, 1, 0], [- 1, 0, 0], [0, 0, 1]])
   \<and> cross_covariance (array [[0, 1, 0], [- 1, 0, 0], [0, 0, 1]]) (array [[1, 0, 0], [0, 1, 0], [0, 0, 1]])
       = Inr (array [[0, - 1, 0], [1, 0, 0], [0, 0, 1]])
   \<and> is_svd (array [[0, - 1, 0], [1, 0, 0], [0, 0, 1]])
        (array [[0, - 1, 0], [1, 0, 0], [0, 0, 1]], [1, 1, 1], array [[1, 0, 0], [0, 1, 0], [0, 0, 1]])
   \<and> solve_attitude
        (svd_returning
          (array [[0, - 1, 0], [1, 0, 0], [0, 0, 1]], [1, 1, 1], array [[1, 0, 0], [0, 1, 0], [0, 0, 1]]))
        improper_raises
        (array [[0, 1, 0], [- 1, 0, 0], [0, 0, 1]]) (array [[1, 0, 0], [0, 1, 0], [0, 0, 1]])
       = Inr (array [[0, 1, 0], [- 1, 0, 0], [0, 0, 1]])
   \<and> rotation_angle (array [[0, - 1, 0], [1, 0, 0], [0, 0, 1]])
        (array [[0, 1, 0], [- 1, 0, 0], [0, 0, 1]]) = pi
   \<and> \<not> pi < 1 / 10 ^ 6"
proof -
  have v: "valid_input 3 (array [[0, 1, 0], [- 1, 0, 0], [0, 0, 1]]) (array [[1, 0, 0], [0, 1, 0], [0, 0, 1]])"
    using not_all_collinear_axes
    by (simp add: valid_input_def unit_rows_def) (simp add: array_def well_shaped_def vnorm_def)
  have a: "rotation_angle (array [[0, - 1, 0], [1, 0, 0], [0, 0, 1]])
        (array [[0, 1, 0], [- 1, 0, 0], [0, 0, 1]]) = pi"
    by (simp add: rotation_angle_def trace_def ent_def array_eval del: map_eq_conv)
  have t: "\<not> pi < 1 / 10 ^ 6"
    using pi_ge_two by simp
  have r: "rot_apply (array [[0, - 1, 0], [1, 0, 0], [0, 0, 1]]) (array [[1, 0, 0], [0, 1, 0], [0, 0, 1]])
       = Inr (array [[0, 1, 0], [- 1, 0, 0], [0, 0, 1]])"
    by (simp add: rot_apply_def rotate_rows_def mv_def array_eval del: map_eq_conv)
  show ?thesis
    apply (intro conjI)
    using v proper_quarter_turn a t r by (simp_all add: solve_eval del: map_eq_conv)
qed

text \<open>
  Claim C2 as amended. For any proper rotation \<open>R\<^sub>0\<close> and any valid catalog of at
  least three unit vectors with three components, not all collinear, if the
  observations are the catalog turned by \<open>R\<^sub>0\<close>, the solve returns the inverse of
  \<open>R\<^sub>0\<close>: the transpose of the returned matrix is \<open>R\<^sub>0\<close> exactly, at angle zero
  from it. This holds for every decomposition within numpy's contract when the
  catalog spans the space. When the catalog lies in one plane it holds unless the
  decomposition makes \<open>R_est\<close> a reflection, and then the result is whatever
  \<open>R.from_matrix\<close> makes of an improper matrix.
\<close>

theorem solve_attitude_recovers_inverse:
  assumes "valid_input 3 observed catalog"
    and "proper_rotation R\<^sub>0" "nrows R\<^sub>0 = 3"
    and "rot_apply R\<^sub>0 catalog = Inr observed"
    and "svd (mm (T observed) catalog) = (U, S, Vt)"
    and "is_svd (mm (T observed) catalog) (U, S, Vt)"
  shows "(solve_attitude svd improper observed catalog = Inr (T R\<^sub>0)
          \<and> T (T R\<^sub>0) = R\<^sub>0 \<and> rotation_angle (T (T R\<^sub>0)) R\<^sub>0 = 0
          \<or> \<not> spans 3 catalog \<and> det (mm (T Vt) (T U)) = - 1
          \<and> solve_attitude svd improper observed catalog = improper (mm (T Vt) (T U)))
         \<and> (spans 3 catalog \<longrightarrow> solve_attitude svd improper observed catalog = Inr (T R\<^sub>0))"
proof -
  let ?R = "mm (T Vt) (T U)"
  have c: "well_shaped catalog" "ncols catalog = 3" "\<not> all_collinear catalog"
    and n: "nrows observed = nrows catalog" "ncols observed = 3"
    using assms(1) by (simp_all add: valid_input_def)
  have o: "orthogonal R\<^sub>0" and d: "det R\<^sub>0 = 1"
    using assms(2) by (simp_all add: proper_rotation_def)
  note R = orthogonalD[OF o assms(3)]
  have ob: "observed = rotate_rows R\<^sub>0 catalog"
    using assms(4) by (rule rot_applyD)
  note k = solve_attitude_cases[where svd = svd, OF n c(2) assms(5,6)]
  have pT: "proper_rotation (T R\<^sub>0)"
    using assms(2,3) by (rule proper_rotation_T)
  have tt: "T (T R\<^sub>0) = R\<^sub>0" using R by simp
  have "trace (eye 3) = 3" by (simp add: trace_def ent_def eye_def upt_0_3)
  then have ang: "rotation_angle (T (T R\<^sub>0)) R\<^sub>0 = 0"
    using R by (simp add: rotation_angle_def)
  have sp: "solve_attitude svd improper observed catalog = Inr (T R\<^sub>0)" if "?R = T R\<^sub>0"
  proof -
    have "from_matrix improper (T R\<^sub>0) = Inr (T R\<^sub>0)"
      using R(2) assms(3) pT by (intro from_matrix_proper) simp_all
    with k(6)[of improper] that show ?thesis by simp
  qed
  have inv: "?R = T R\<^sub>0" if "spans 3 catalog"
    using c(1,2) that o assms(3) assms(6)[unfolded ob] by (rule kabsch_inverse)
  have "?R = T R\<^sub>0 \<or> det ?R = - 1"
    using c assms(2,3) assms(6)[unfolded ob] by (rule kabsch_noncollinear)
  then have "solve_attitude svd improper observed catalog = Inr (T R\<^sub>0)
      \<or> \<not> spans 3 catalog \<and> det ?R = - 1
        \<and> solve_attitude svd improper observed catalog = improper ?R"
  proof
    assume "?R = T R\<^sub>0"
    then show ?thesis using sp by simp
  next
    assume m: "det ?R = - 1"
    have "\<not> spans 3 catalog"
    proof
      assume "spans 3 catalog"
      then have "det ?R = 1" using inv pT by (simp add: proper_rotation_def)
      with m show False by simp
    qed
    with m k(8)[of improper] show ?thesis by simp
  qed
  with tt ang inv sp show ?thesis by blast
qed

theorem solve_attitude_recovers_inverse_witness:
  "valid_input 3 (array [[1, 0, 0], [0, 0, 1], [0, - 1, 0]]) (array [[1, 0, 0], [0, 1, 0], [0, 0, 1]])
   \<and> proper_rotation (array [[1, 0, 0], [0, 0, - 1], [0, 1, 0]])
   \<and> spans 3 (array [[1, 0, 0], [0, 1, 0], [0, 0, 1]])
   \<and> rot_apply (array [[1, 0, 0], [0, 0, - 1], [0, 1, 0]]) (array [[1, 0, 0], [0, 1, 0], [0, 0, 1]])
       = Inr (array [[1, 0, 0], [0, 0, 1], [0, - 1, 0]])
   \<and> is_svd (mm (T (array [[1, 0, 0], [0, 0, 1], [0, - 1, 0]])) (array [[1, 0, 0], [0, 1, 0], [0, 0, 1]]))
        (array [[1, 0, 0], [0, 1, 0], [0, 0, 1]], [1, 1, 1], array [[1, 0, 0], [0, 0, - 1], [0, 1, 0]])
   \<and> solve_attitude
        (svd_returning
          (array [[1, 0, 0], [0, 1, 0], [0, 0, 1]], [1, 1, 1], array [[1, 0, 0], [0, 0, - 1], [0, 1, 0]]))
        improper_raises
        (array [[1, 0, 0], [0, 0, 1], [0, - 1, 0]]) (array [[1, 0, 0], [0, 1, 0], [0, 0, 1]])
       = Inr (array [[1, 0, 0], [0, 0, 1], [0, - 1, 0]])
   \<and> T (array [[1, 0, 0], [0, 0, 1], [0, - 1, 0]]) = array [[1, 0, 0], [0, 0, - 1], [0, 1, 0]]
   \<and> array [[1, 0, 0], [0, 0, 1], [0, - 1, 0]] \<noteq> array [[1, 0, 0], [0, 0, - 1], [0, 1, 0]]"
proof -
  let ?R = "array [[1, 0, 0], [0, 0, - 1], [0, 1, 0]]"
  let ?cat = "array [[1, 0, 0], [0, 1, 0], [0, 0, 1]]"
  let ?obs = "array [[1, 0, 0], [0, 0, 1], [0, - 1, 0]]"
  let ?r = "(?cat, [1, 1, 1], ?R)"
  have v: "valid_input 3 ?obs ?cat"
    using not_all_collinear_axes
    by (simp add: valid_input_def unit_rows_def) (simp add: array_def well_shaped_def vnorm_def)
  have p: "proper_rotation ?R"
    by (simp add: proper_rotation_def det_def array_eval del: map_eq_conv)
  have c: "nrows ?R = 3"
    by (simp add: array_def)
  have ob: "rot_apply ?R ?cat = Inr ?obs"
    by (simp add: rot_apply_def rotate_rows_def mv_def array_eval del: map_eq_conv)
  have t: "T ?R = ?obs" "T ?obs = ?R" "?obs \<noteq> ?R"
    by (simp_all add: array_eval del: map_eq_conv)
  have s: "svd_returning ?r (mm (T ?obs) ?cat) = ?r"
    by (simp add: svd_returning_def)
  have i: "is_svd (mm (T ?obs) ?cat) ?r"
    by (simp add: array_eval del: map_eq_conv)
  from solve_attitude_recovers_inverse[where svd = "svd_returning ?r" and improper = improper_raises,
      OF v p c ob s i]
    v p spans_axes_3 ob i t
  show ?thesis by simp
qed

section \<open>The planar scenario\<close>

lemma well_shaped_rot2 [simp]: "well_shaped (rot2 \<theta>)"
  by (simp add: well_shaped_def rot2_def)


lemma ncols_rot2 [simp]: "ncols (rot2 \<theta>) = 2"
  by (simp add: rot2_def)


lemma sin_cos_squares: "sin \<theta> * sin \<theta> + cos \<theta> * cos \<theta> = (1::real)"
  using sin_cos_squared_add[of \<theta>] by (simp add: power2_eq_square)

lemma cos_sin_squares: "cos \<theta> * cos \<theta> + sin \<theta> * sin \<theta> = (1::real)"
  using sin_cos_squares[of \<theta>] by (simp add: add.commute)




lemma det_rot2: "det (rot2 \<theta>) = 1"
  by (simp add: rot2_def det_2 cos_sin_squares)













end
